(* ===== verification/Prelude.thy ===== *)
theory Prelude
  imports Main "HOL-Library.Word" "HOL-Library.Sublist" "HOL-Library.Char_ord"
begin

text \<open>
  Shared vocabulary of the development: the machine types of the Go program, the part of
  the Go standard library that works on plain text (strconv, strings, fmt's decimal verb),
  error values with their wrapping chains, and the collections of rewrite rules that the
  component theories extend.

  A Go string and a Go byte slice are both a sequence of bytes; an Isabelle character is
  one byte, so both are modelled by a list of characters.
\<close>

named_theorems go_simps \<open>evaluation rules of the standard-library models\<close>
named_theorems go_iff \<open>inversion rules: when a fallible operation returns a given result\<close>

section \<open>Machine types\<close>

type_synonym bytes = string
type_synonym int64 = "64 word"
type_synonym float64 = "64 word" \<comment> \<open>the IEEE 754 bit pattern\<close>

section \<open>Errors\<close>

text \<open>
  The error values that reach a decision of the program. \<open>NetErr t s\<close> stands for any
  value that implements \<open>net.Error\<close> (\<open>t\<close> is what its \<open>Timeout\<close> method returns, \<open>s\<close> its
  text), \<open>PgErr c s\<close> for a \<open>pgconn.PgError\<close> with SQLSTATE \<open>c\<close>, \<open>NetClosed\<close> for
  \<open>net.ErrClosed\<close>, \<open>DeadlineExceeded\<close> and \<open>Canceled\<close> for the two errors of package
  context, \<open>WrapErr p e\<close> for \<open>fmt.Errorf\<close> of a format that ends in the verb for a wrapped
  error, \<open>TextErr s\<close> for an error that is only text.
\<close>

datatype goerror =
    TextErr string
  | NetErr bool string
  | NetClosed
  | PgErr string string
  | DeadlineExceeded
  | Canceled
  | WrapErr string goerror

text \<open>What the method \<open>Error()\<close> of each value returns.\<close>

fun error_text :: "goerror \<Rightarrow> string" where
  "error_text (TextErr s) = s"
| "error_text (NetErr t s) = s"
| "error_text NetClosed = ''use of closed network connection''"
| "error_text (PgErr c s) = s"
| "error_text DeadlineExceeded = ''context deadline exceeded''"
| "error_text Canceled = ''context canceled''"
| "error_text (WrapErr p e) = p @ error_text e"

text \<open>
  \<open>errors.As(err, &netErr)\<close>: the first value of the chain that has the methods of
  \<open>net.Error\<close>; the result is what \<open>Timeout()\<close> returns on it. In the standard library
  \<open>net.ErrClosed\<close> (\<open>poll.errNetClosing\<close>) has the methods, with \<open>Timeout()\<close> false, and
  \<open>context.DeadlineExceeded\<close> has them, with \<open>Timeout()\<close> true.
\<close>

fun as_net_error :: "goerror \<Rightarrow> bool option" where
  "as_net_error (NetErr t s) = Some t"
| "as_net_error NetClosed = Some False"
| "as_net_error DeadlineExceeded = Some True"
| "as_net_error (WrapErr p e) = as_net_error e"
| "as_net_error _ = None"

text \<open>\<open>errors.As(err, &pgErr)\<close>: the SQLSTATE of the first Postgres error of the chain.\<close>

fun as_pg_error :: "goerror \<Rightarrow> string option" where
  "as_pg_error (PgErr c s) = Some c"
| "as_pg_error (WrapErr p e) = as_pg_error e"
| "as_pg_error _ = None"

text \<open>\<open>errors.Is(err, net.ErrClosed)\<close>.\<close>

fun is_net_closed :: "goerror \<Rightarrow> bool" where
  "is_net_closed NetClosed = True"
| "is_net_closed (WrapErr p e) = is_net_closed e"
| "is_net_closed _ = False"

lemma net_closed_is_net_error: "is_net_closed e \<Longrightarrow> as_net_error e = Some False"
  by (induction e) auto

section \<open>Substrings and lower case\<close>

fun contains :: "string \<Rightarrow> string \<Rightarrow> bool" where
  "contains p [] = (p = [])"
| "contains p (c # cs) = (prefix p (c # cs) \<or> contains p cs)"

lemma contains_iff: "contains p s \<longleftrightarrow> (\<exists>us vs. s = us @ p @ vs)"
proof (induction s)
  case Nil
  then show ?case by auto
next
  case (Cons c cs)
  show ?case
  proof
    assume "contains p (c # cs)"
    then consider "prefix p (c # cs)" | "contains p cs" by auto
    then show "\<exists>us vs. c # cs = us @ p @ vs"
    proof cases
      case 1
      then obtain vs where "c # cs = [] @ p @ vs" by (auto simp: prefix_def)
      then show ?thesis by blast
    next
      case 2
      with Cons.IH obtain us vs where "cs = us @ p @ vs" by blast
      then have "c # cs = (c # us) @ p @ vs" by simp
      then show ?thesis by blast
    qed
  next
    assume "\<exists>us vs. c # cs = us @ p @ vs"
    then obtain us vs where eq: "c # cs = us @ p @ vs" by blast
    show "contains p (c # cs)"
    proof (cases us)
      case Nil
      with eq have "prefix p (c # cs)" by simp
      then show ?thesis by simp
    next
      case (Cons u us')
      with eq have "cs = us' @ p @ vs" by simp
      with Cons.IH show ?thesis by auto
    qed
  qed
qed

lemma contains_infix [simp, intro]: "contains p (us @ p @ vs)"
  by (auto simp: contains_iff)

lemma contains_append_left: "contains p s \<Longrightarrow> contains p (us @ s)"
proof -
  assume "contains p s"
  then obtain vs ws where "s = vs @ p @ ws" by (auto simp: contains_iff)
  then have "us @ s = (us @ vs) @ p @ ws" by simp
  then show ?thesis by (simp only: contains_infix)
qed

text \<open>
  \<open>strings.ToLower\<close>, as far as a search for ASCII text can see it: besides the letters A to
  Z only U+0130 and U+212A (written out in UTF-8 below) become ASCII letters.
\<close>

definition lower_char :: "char \<Rightarrow> char" where
  "lower_char c = (let n = (of_char c :: nat) in if 65 \<le> n \<and> n \<le> 90 then char_of (n + 32) else c)"

fun to_lower :: "string \<Rightarrow> string" where
  "to_lower (a # b # c # s) =
     (if (of_char a :: nat) = 0xE2 \<and> (of_char b :: nat) = 0x84 \<and> (of_char c :: nat) = 0xAA
        then CHR ''k'' # to_lower s
      else if (of_char a :: nat) = 0xC4 \<and> (of_char b :: nat) = 0xB0
        then CHR ''i'' # to_lower (c # s)
      else lower_char a # to_lower (b # c # s))"
| "to_lower [a, b] =
     (if (of_char a :: nat) = 0xC4 \<and> (of_char b :: nat) = 0xB0 then [CHR ''i'']
      else [lower_char a, lower_char b])"
| "to_lower [a] = [lower_char a]"
| "to_lower [] = []"

section \<open>Decimal integers: fmt's integer verb, strconv.ParseInt and strconv.Atoi\<close>

definition digit_char :: "nat \<Rightarrow> char" where
  "digit_char d = char_of (48 + d)"

definition is_digit :: "char \<Rightarrow> bool" where
  "is_digit c \<longleftrightarrow> 48 \<le> (of_char c :: nat) \<and> (of_char c :: nat) \<le> 57"

definition digit_val :: "char \<Rightarrow> nat" where
  "digit_val c = of_char c - 48"

lemma of_char_digit [simp]: "d < 10 \<Longrightarrow> (of_char (digit_char d) :: nat) = 48 + d"
  by (simp add: digit_char_def)

lemma digit_char_eval [go_simps]:
  "digit_char 0 = CHR ''0''" "digit_char 1 = CHR ''1''" "digit_char (Suc 0) = CHR ''1''"
  "digit_char 2 = CHR ''2''" "digit_char 3 = CHR ''3''" "digit_char 4 = CHR ''4''"
  "digit_char 5 = CHR ''5''" "digit_char 6 = CHR ''6''" "digit_char 7 = CHR ''7''"
  "digit_char 8 = CHR ''8''" "digit_char 9 = CHR ''9''"
  by (simp_all add: digit_char_def char_of_def bit_0)

lemma is_digit_digit_char [simp]: "d < 10 \<Longrightarrow> is_digit (digit_char d)"
  by (simp add: is_digit_def)

lemma digit_val_digit_char [simp]: "d < 10 \<Longrightarrow> digit_val (digit_char d) = d"
  by (simp add: digit_val_def)

fun dec_nat :: "nat \<Rightarrow> string" where
  "dec_nat n = (if n < 10 then [digit_char n] else dec_nat (n div 10) @ [digit_char (n mod 10)])"

declare dec_nat.simps [simp del]

definition dec_int :: "int \<Rightarrow> string" where
  "dec_int i = (if i < 0 then CHR ''-'' # dec_nat (nat (- i)) else dec_nat (nat i))"

definition fmt_d :: "int64 \<Rightarrow> string" where
  "fmt_d w = dec_int (sint w)"

fun parse_digits :: "nat \<Rightarrow> string \<Rightarrow> nat option" where
  "parse_digits acc [] = Some acc"
| "parse_digits acc (c # cs) =
     (if is_digit c then parse_digits (10 * acc + digit_val c) cs else None)"

definition parse_nat :: "string \<Rightarrow> nat option" where
  "parse_nat s = (if s = [] then None else parse_digits 0 s)"

text \<open>
  \<open>strconv.ParseInt(s, 10, 64)\<close>, which \<open>strconv.Atoi\<close> agrees with on a 64-bit machine: an
  optional sign, at least one decimal digit and nothing else, and a value in range; None
  is a syntax or a range error.
\<close>

definition parse_int64 :: "string \<Rightarrow> int64 option" where
  "parse_int64 s = (case s of [] \<Rightarrow> None | c # cs \<Rightarrow>
     (if c = CHR ''-'' then
        (case parse_nat cs of None \<Rightarrow> None
         | Some n \<Rightarrow> if n \<le> 2 ^ 63 then Some (word_of_int (- int n)) else None)
      else
        (case parse_nat (if c = CHR ''+'' then cs else s) of None \<Rightarrow> None
         | Some n \<Rightarrow> if n < 2 ^ 63 then Some (word_of_int (int n)) else None)))"

lemma dec_nat_nonempty [simp]: "dec_nat n \<noteq> []"
  by (subst dec_nat.simps) simp

lemma dec_nat_digits: "c \<in> set (dec_nat n) \<Longrightarrow> is_digit c"
proof (induction n rule: dec_nat.induct)
  case (1 n)
  then show ?case
    by (cases "n < 10") (auto simp: dec_nat.simps [of n])
qed

lemma parse_digits_append:
  "parse_digits a (xs @ ys) = Option.bind (parse_digits a xs) (\<lambda>b. parse_digits b ys)"
  by (induction xs arbitrary: a) auto

lemma parse_digits_dec_nat: "parse_digits 0 (dec_nat n) = Some n"
proof (induction n rule: dec_nat.induct)
  case (1 n)
  show ?case
  proof (cases "n < 10")
    case True
    then show ?thesis by (simp add: dec_nat.simps [of n])
  next
    case False
    then have "parse_digits 0 (dec_nat n) = parse_digits (n div 10) [digit_char (n mod 10)]"
      using "1.IH" by (simp add: dec_nat.simps [of n] parse_digits_append)
    then show ?thesis by simp
  qed
qed

lemma parse_nat_dec_nat [simp]: "parse_nat (dec_nat n) = Some n"
  by (simp add: parse_nat_def parse_digits_dec_nat)

lemma dec_nat_hd: "\<exists>c cs. dec_nat n = c # cs \<and> is_digit c"
  using dec_nat_digits [of "hd (dec_nat n)" n]
  by (cases "dec_nat n") auto

lemma not_digit_punct [simp]:
  "\<not> is_digit CHR ''-''" "\<not> is_digit CHR ''+''" "\<not> is_digit CHR '':''" "\<not> is_digit CHR ''.''"
  by (simp_all add: is_digit_def)

text \<open>Parsing the printed form of an integer gives the integer back.\<close>

lemma parse_int64_fmt_d [simp]: "parse_int64 (fmt_d w) = Some w"
proof (cases "sint w < 0")
  case True
  have "- (2 ^ 63) \<le> sint w" using sint_greater_eq [of w] by simp
  with True have "nat (- sint w) \<le> 2 ^ 63" by simp
  with True show ?thesis by (simp add: fmt_d_def dec_int_def parse_int64_def)
next
  case False
  obtain c cs where c: "dec_nat (nat (sint w)) = c # cs" "is_digit c"
    using dec_nat_hd by blast
  then have nsign: "c \<noteq> CHR ''-''" "c \<noteq> CHR ''+''" by auto
  have "sint w < 2 ^ 63" using sint_less [of w] by simp
  with False have "nat (sint w) < 2 ^ 63" by simp
  moreover have "parse_nat (c # cs) = Some (nat (sint w))"
    by (simp flip: c(1))
  ultimately show ?thesis
    using False c nsign by (simp add: fmt_d_def dec_int_def parse_int64_def)
qed

lemma fmt_d_inject [simp]: "fmt_d v = fmt_d w \<longleftrightarrow> v = w"
  by (metis option.inject parse_int64_fmt_d)

lemma fmt_d_no_colon: "CHR '':'' \<notin> set (fmt_d w)"
  by (auto simp: fmt_d_def dec_int_def dest: dec_nat_digits)

section \<open>Lists\<close>

text \<open>Cutting two texts at their last separator.\<close>

lemma split_at_last_sep:
  assumes "us @ [c] @ vs = us' @ [c] @ vs'" and "c \<notin> set vs" and "c \<notin> set vs'"
  shows "us = us' \<and> vs = vs'"
proof -
  from assms(1) have rv: "rev vs @ c # rev us = rev vs' @ c # rev us'"
    by (metis append.assoc append_Cons append_Nil rev.simps(2) rev_append)
  have "takeWhile (\<lambda>x. x \<noteq> c) (rev vs @ c # rev us) = rev vs"
    using assms(2) by (subst takeWhile_append2) auto
  moreover have "takeWhile (\<lambda>x. x \<noteq> c) (rev vs' @ c # rev us') = rev vs'"
    using assms(3) by (subst takeWhile_append2) auto
  ultimately have "vs = vs'" using rv by (metis rev_is_rev_conv)
  with rv show ?thesis by simp
qed

end
