(* ===== verification/HashUtil.thy ===== *)
theory HashUtil
  imports Prelude
begin

unbundle bit_operations_syntax

text \<open>
  \<^verbatim>\<open>internal/utils/hash.go\<close>: the keyed hash of a metric. \<open>CalculateHash\<close> and \<open>VerifyHash\<close> are the
  two functions of the file; below them stands what they use of the standard library:
  SHA-256 (FIPS 180-4), HMAC (RFC 2104) and hexadecimal text. The lemmas give the shape of
  a hash (64 lower-case hexadecimal digits) and decide exactly when a check succeeds.
\<close>

section \<open>crypto/sha256\<close>

type_synonym u32 = "32 word"
type_synonym sha_state = "u32 list"

text \<open>
  The constants of the standard, from its own description: the first 32 bits of the
  fractional parts of the cube roots of the first 64 primes (those below 312), and of the
  square roots of the first eight for the initial state. The root of \<open>n\<close> is found bit by bit.
\<close>

definition primes_below :: "int \<Rightarrow> int list" where
  "primes_below n = filter (\<lambda>p. list_all (\<lambda>d. p mod d \<noteq> 0) [2..p - 1]) [2..n - 1]"

fun root_search :: "nat \<Rightarrow> int \<Rightarrow> nat \<Rightarrow> int \<Rightarrow> int" where
  "root_search k n 0 r = r"
| "root_search k n (Suc b) r = root_search k n b (if (r + 2 ^ b) ^ k \<le> n then r + 2 ^ b else r)"

definition sha256_k :: "u32 list" where
  "sha256_k = map (\<lambda>p. word_of_int (root_search 3 (p * 2 ^ 96) 35 0)) (primes_below 312)"

definition sha256_init :: sha_state where
  "sha256_init = map (\<lambda>p. word_of_int (root_search 2 (p * 2 ^ 64) 35 0)) [2, 3, 5, 7, 11, 13, 17, 19]"

definition rotr :: "nat \<Rightarrow> u32 \<Rightarrow> u32" where
  "rotr n x = drop_bit n x OR push_bit (32 - n) x"

definition sha_schedule_word :: "u32 list \<Rightarrow> u32" where
  \<comment> \<open>the next word, from the last sixteen, most recent first\<close>
  "sha_schedule_word ws =
     (let x = ws ! 14; y = ws ! 1;
          s0 = rotr 7 x XOR rotr 18 x XOR drop_bit 3 x;
          s1 = rotr 17 y XOR rotr 19 y XOR drop_bit 10 y
      in ws ! 15 + s0 + ws ! 6 + s1)"

fun sha_extend :: "nat \<Rightarrow> u32 list \<Rightarrow> u32 list" where
  "sha_extend 0 ws = ws"
| "sha_extend (Suc n) ws = sha_extend n (sha_schedule_word ws # ws)"

definition sha_round :: "u32 \<times> u32 \<Rightarrow> sha_state \<Rightarrow> sha_state" where
  "sha_round kw s = (case s of [a, b, c, d, e, f, g, h] \<Rightarrow>
     (let t1 = h + (rotr 6 e XOR rotr 11 e XOR rotr 25 e) + ((e AND f) XOR (NOT e AND g))
                 + fst kw + snd kw;
          t2 = (rotr 2 a XOR rotr 13 a XOR rotr 22 a)
                 + ((a AND b) XOR (a AND c) XOR (b AND c))
      in [t1 + t2, a, b, c, d + t1, e, f, g])
   | _ \<Rightarrow> s)"

fun be_words :: "bytes \<Rightarrow> u32 list" where
  "be_words (a # b # c # d # r) =
     (push_bit 24 (of_char a) OR push_bit 16 (of_char b) OR push_bit 8 (of_char c) OR of_char d)
       # be_words r"
| "be_words _ = []"

definition sha_block :: "sha_state \<Rightarrow> bytes \<Rightarrow> sha_state" where
  "sha_block s blk = map2 (+) s
     (fold sha_round (zip sha256_k (rev (sha_extend 48 (rev (be_words blk))))) s)"

function sha_blocks :: "sha_state \<Rightarrow> bytes \<Rightarrow> sha_state" where
  "sha_blocks s m =
     (if length m < 64 then s else sha_blocks (sha_block s (take 64 m)) (drop 64 m))"
  by pat_completeness auto
termination
  by (relation "measure (\<lambda>(s, m). length m)") auto

declare sha_blocks.simps [simp del]

definition be_bytes :: "u32 \<Rightarrow> bytes" where
  "be_bytes w = map (\<lambda>i. char_of (unat (drop_bit i w AND 255))) [24, 16, 8, 0]"

definition sha_pad :: "bytes \<Rightarrow> bytes" where
  "sha_pad m = m @ [char_of (128 :: nat)] @ replicate ((119 - length m mod 64) mod 64) (CHR 0x00)
     @ be_bytes (word_of_int (8 * int (length m) div 2 ^ 32)) @ be_bytes (word_of_int (8 * int (length m)))"

definition sha256 :: "bytes \<Rightarrow> bytes" where
  "sha256 m = concat (map be_bytes (sha_blocks sha256_init (sha_pad m)))"

section \<open>crypto/hmac and encoding/hex\<close>

definition xor_byte :: "8 word \<Rightarrow> char \<Rightarrow> char" where
  "xor_byte n c = char_of (unat (n XOR of_char c))"

definition hmac_sha256 :: "bytes \<Rightarrow> bytes \<Rightarrow> bytes" where
  "hmac_sha256 key m =
     (let k = (if 64 < length key then sha256 key else key);
          k0 = k @ replicate (64 - length k) (CHR 0x00)
      in sha256 (map (xor_byte 0x5c) k0 @ sha256 (map (xor_byte 0x36) k0 @ m)))"

definition hex_digit :: "nat \<Rightarrow> char" where
  "hex_digit d = (if d < 10 then digit_char d else char_of (87 + d))"

definition hex_encode :: "bytes \<Rightarrow> string" where
  "hex_encode bs = concat (map (\<lambda>c. [hex_digit (of_char c div 16), hex_digit (of_char c mod 16)]) bs)"

section \<open>hash.go\<close>

definition CalculateHash :: "bytes \<Rightarrow> string \<Rightarrow> string" where
  "CalculateHash data key = (if key = [] then [] else hex_encode (hmac_sha256 key data))"

definition VerifyHash :: "bytes \<Rightarrow> string \<Rightarrow> string \<Rightarrow> bool" where
  "VerifyHash data key expectedHash =
     (if key = [] \<or> expectedHash = [] then True
      else (let calculatedHash = CalculateHash data key in calculatedHash = expectedHash))"

section \<open>The shape of a hash\<close>

definition is_hex_digit :: "char \<Rightarrow> bool" where
  "is_hex_digit c \<longleftrightarrow> is_digit c \<or> 97 \<le> (of_char c :: nat) \<and> (of_char c :: nat) \<le> 102"

lemma is_hex_digit_hex_digit [simp]: "d < 16 \<Longrightarrow> is_hex_digit (hex_digit d)"
  by (auto simp: is_hex_digit_def hex_digit_def)

lemma length_sha_round: "length (sha_round kw s) = length s"
  by (auto simp: sha_round_def Let_def split: list.splits)

lemma length_sha_block:
  assumes "length s = 8"
  shows "length (sha_block s blk) = 8"
proof -
  have "length (fold sha_round kws t) = length t" for kws t
    by (induction kws arbitrary: t) (auto simp: length_sha_round)
  with assms show ?thesis by (simp add: sha_block_def)
qed

lemma length_sha_blocks: "length s = 8 \<Longrightarrow> length (sha_blocks s m) = 8"
proof (induction s m rule: sha_blocks.induct)
  case (1 s m)
  then show ?case
    by (cases "length m < 64") (auto simp: sha_blocks.simps [of s m] length_sha_block)
qed

lemma length_concat_const: "(\<And>x. x \<in> set xs \<Longrightarrow> length (f x) = k) \<Longrightarrow> length (concat (map f xs)) = k * length xs"
  by (induction xs) auto

lemma length_sha256: "length (sha256 m) = 32"
proof -
  have "length (sha_blocks sha256_init (sha_pad m)) = 8"
    by (rule length_sha_blocks) (simp add: sha256_init_def)
  then show ?thesis
    unfolding sha256_def by (subst length_concat_const [where k = 4]) (auto simp: be_bytes_def)
qed

lemma sha_pad_blocks: "length (sha_pad m) mod 64 = 0"
proof -
  define r where "r = length m mod 64"
  define q where "q = length m div 64"
  have m: "length m = 64 * q + r" by (simp add: q_def r_def)
  have r: "r < 64" by (simp add: r_def)
  have "(119 - r) mod 64 = (if r \<le> 55 then 55 - r else 119 - r)"
  proof (cases "r \<le> 55")
    case True
    then have "119 - r = (55 - r) + 64" by simp
    then have "(119 - r) mod 64 = ((55 - r) + 64) mod 64" by (simp only:)
    also have "\<dots> = (55 - r) mod 64" by (rule mod_add_self2)
    also have "\<dots> = 55 - r" by (rule mod_less) simp
    finally show ?thesis using True by simp
  qed (use r in simp)
  then have "length (sha_pad m) = (if r \<le> 55 then 64 * q + 64 else 64 * q + 128)"
    using r by (simp add: sha_pad_def be_bytes_def m)
  then show ?thesis by simp
qed

lemma length_hex_encode: "length (hex_encode bs) = 2 * length bs"
  unfolding hex_encode_def by (rule length_concat_const) simp

lemma byte_halves [simp]: "(of_char c :: nat) div 16 < 16" "(of_char c :: nat) mod 16 < 16"
  using nat_of_char_less_256 [of c] by (simp_all add: less_mult_imp_div_less)

lemma set_hex_encode: "c \<in> set (hex_encode bs) \<Longrightarrow> is_hex_digit c"
  by (auto simp: hex_encode_def)

lemma CalculateHash_no_key [simp]: "CalculateHash d [] = []"
  by (simp add: CalculateHash_def)

lemma CalculateHash_length: "k \<noteq> [] \<Longrightarrow> length (CalculateHash d k) = 64"
  by (simp add: CalculateHash_def hmac_sha256_def Let_def length_hex_encode length_sha256)

lemma CalculateHash_nonempty [simp]: "CalculateHash d k = [] \<longleftrightarrow> k = []"
  by (cases "k = []") (auto dest: CalculateHash_length [of k d])

lemma CalculateHash_nonempty' [simp]: "[] = CalculateHash d k \<longleftrightarrow> k = []"
  by (metis CalculateHash_nonempty)

lemma CalculateHash_hex: "c \<in> set (CalculateHash d k) \<Longrightarrow> is_hex_digit c"
  by (auto simp: CalculateHash_def dest: set_hex_encode split: if_splits)

lemma VerifyHash_iff: "VerifyHash d k h \<longleftrightarrow> k = [] \<or> h = [] \<or> h = CalculateHash d k"
  by (auto simp: VerifyHash_def Let_def)

text \<open>Two hexadecimal texts are equal only if the bytes are.\<close>

lemma hex_digit_inject: "a < 16 \<Longrightarrow> b < 16 \<Longrightarrow> hex_digit a = hex_digit b \<longleftrightarrow> a = b"
proof -
  have val: "(of_char (hex_digit d) :: nat) = (if d < 10 then 48 + d else 87 + d)" if "d < 16" for d
    using that by (simp add: hex_digit_def)
  assume a: "a < 16" and b: "b < 16"
  show ?thesis
  proof
    assume "hex_digit a = hex_digit b"
    then have "(of_char (hex_digit a) :: nat) = of_char (hex_digit b)" by simp
    then show "a = b" unfolding val [OF a] val [OF b] using a b by (simp split: if_splits)
  qed simp
qed

lemma hex_encode_inject [simp]: "hex_encode xs = hex_encode ys \<longleftrightarrow> xs = ys"
proof (induction xs arbitrary: ys)
  case Nil
  then show ?case by (cases ys) (auto simp: hex_encode_def)
next
  case (Cons x xs)
  show ?case
  proof (cases ys)
    case (Cons y ys')
    have "x = y" if "(of_char x :: nat) div 16 = of_char y div 16" "(of_char x :: nat) mod 16 = of_char y mod 16"
      using that by (metis char_of_char div_mult_mod_eq)
    then show ?thesis
      using Cons Cons.IH [of ys'] by (auto simp: hex_encode_def hex_digit_inject)
  qed (simp add: hex_encode_def)
qed

section \<open>Properties\<close>

text \<open>
  With a key, CalculateHash gives 64 lower-case hexadecimal digits; VerifyHash accepts
  exactly that text, and everything when the key or the given hash is empty.
\<close>

theorem hash_shape_and_check:
  "(k \<noteq> [] \<longrightarrow> length (CalculateHash d k) = 64 \<and> list_all is_hex_digit (CalculateHash d k))
    \<and> (VerifyHash d k h \<longleftrightarrow> k = [] \<or> h = [] \<or> h = CalculateHash d k)"
  by (auto simp: CalculateHash_length VerifyHash_iff list_all_iff dest: CalculateHash_hex)

theorem hash_shape_and_check_witness:
  "length (CalculateHash ''c:counter:5'' ''secret'') = 64"
  using hash_shape_and_check [of "''secret''" "''c:counter:5''" "[]"] by simp

end
