(* ===== verification/GoFloat.thy ===== *)
theory GoFloat
  imports Prelude Complex_Main
begin

text \<open>
  The part of Go's float64 that the program's own decisions depend on: the value of a bit
  pattern, the six-decimal text that fmt prints for it (the text that is hashed for a gauge),
  and the rounding of a quotient to the nearest representable number, which
  \<^verbatim>\<open>time.Duration.Seconds\<close> performs. Everything is computed on integers and rationals.
\<close>

section \<open>Bit patterns and their values\<close>

definition f64_neg :: "float64 \<Rightarrow> bool" where
  "f64_neg w \<longleftrightarrow> bit w 63"

definition f64_exp :: "float64 \<Rightarrow> int" where
  "f64_exp w = uint w div 2 ^ 52 mod 2048"

definition f64_frac :: "float64 \<Rightarrow> int" where
  "f64_frac w = uint w mod 2 ^ 52"

definition f64_finite :: "float64 \<Rightarrow> bool" where
  "f64_finite w \<longleftrightarrow> f64_exp w \<noteq> 2047"

definition f64_nan :: "float64 \<Rightarrow> bool" where
  "f64_nan w \<longleftrightarrow> f64_exp w = 2047 \<and> f64_frac w \<noteq> 0"

text \<open>A finite number is \<open>m * 2 ^ e\<close> with the significand \<open>m\<close> and the exponent \<open>e\<close> below.\<close>

definition f64_mant :: "float64 \<Rightarrow> int" where
  "f64_mant w = (if f64_exp w = 0 then f64_frac w else f64_frac w + 2 ^ 52)"

definition f64_scale :: "float64 \<Rightarrow> int" where
  "f64_scale w = (if f64_exp w = 0 then - 1074 else f64_exp w - 1075)"

definition f64_abs :: "float64 \<Rightarrow> rat" where
  "f64_abs w = (if 0 \<le> f64_scale w then of_int (f64_mant w * 2 ^ nat (f64_scale w))
     else of_int (f64_mant w) / of_int (2 ^ nat (- f64_scale w)))"

definition f64_val :: "float64 \<Rightarrow> rat" where
  "f64_val w = (if f64_neg w then - f64_abs w else f64_abs w)"

lemma f64_mant_nonneg: "0 \<le> f64_mant w"
  by (simp add: f64_mant_def f64_frac_def)

section \<open>Rounding a quotient to the nearest integer, ties to even\<close>

definition round_div :: "int \<Rightarrow> int \<Rightarrow> int" where
  "round_div n d = (let q = n div d; r = n mod d
     in if 2 * r < d \<or> 2 * r = d \<and> even q then q else q + 1)"

lemma round_div_nonneg: "0 \<le> n \<Longrightarrow> 0 < d \<Longrightarrow> 0 \<le> round_div n d"
  by (simp add: round_div_def Let_def pos_imp_zdiv_nonneg_iff add_nonneg_nonneg)

lemma round_div_1 [simp]: "round_div n 1 = n"
  by (simp add: round_div_def)

lemma round_div_bounds:
  assumes "0 < d"
  shows "2 * n - d \<le> 2 * (round_div n d * d) \<and> 2 * (round_div n d * d) \<le> 2 * n + d"
proof -
  have n: "n = n div d * d + n mod d" by simp
  have r: "0 \<le> n mod d" "n mod d < d" using assms by simp_all
  show ?thesis
  proof (cases "2 * (n mod d) < d \<or> 2 * (n mod d) = d \<and> even (n div d)")
    case True
    then have "round_div n d * d = n - n mod d"
      by (auto simp: round_div_def Let_def minus_mod_eq_div_mult)
    with True r show ?thesis by auto
  next
    case False
    then have "round_div n d * d = n - n mod d + d"
      by (auto simp: round_div_def Let_def minus_mod_eq_div_mult algebra_simps)
    with False r show ?thesis by auto
  qed
qed

lemma round_div_close:
  assumes "0 < d"
  shows "\<bar>of_int (round_div n d) - (of_int n / of_int d :: rat)\<bar> \<le> 1 / 2"
proof -
  have d: "(0 :: rat) < of_int d" using assms by simp
  have "(of_int (2 * n - d) :: rat) \<le> of_int (2 * (round_div n d * d))"
    and "(of_int (2 * (round_div n d * d)) :: rat) \<le> of_int (2 * n + d)"
    using round_div_bounds [OF assms, of n] by (simp_all only: of_int_le_iff)
  then have "of_int (round_div n d) - (of_int n / of_int d :: rat) \<le> 1 / 2"
    and "- (of_int (round_div n d) - (of_int n / of_int d :: rat)) \<le> 1 / 2"
    using d by (simp_all add: field_simps)
  then show ?thesis by (rule abs_leI)
qed

section \<open>The six-decimal text\<close>

text \<open>The magnitude in millionths, rounded.\<close>

definition f64_micros :: "float64 \<Rightarrow> int" where
  "f64_micros w = (if 0 \<le> f64_scale w then f64_mant w * 2 ^ nat (f64_scale w) * 10 ^ 6
     else round_div (f64_mant w * 10 ^ 6) (2 ^ nat (- f64_scale w)))"

fun pad_dec :: "nat \<Rightarrow> nat \<Rightarrow> string" where
  "pad_dec 0 n = []"
| "pad_dec (Suc k) n = pad_dec k (n div 10) @ [digit_char (n mod 10)]"

definition fixed6 :: "int \<Rightarrow> string" where
  "fixed6 n = dec_nat (nat (n div 10 ^ 6)) @ ''.'' @ pad_dec 6 (nat (n mod 10 ^ 6))"

definition fmt_f :: "float64 \<Rightarrow> string" where
  "fmt_f w = (if f64_nan w then ''NaN''
     else if \<not> f64_finite w then (if f64_neg w then ''-Inf'' else ''+Inf'')
     else (if f64_neg w then ''-'' else []) @ fixed6 (f64_micros w))"

lemma pad_dec_6 [go_simps]: "pad_dec 6 n =
    [digit_char (n div 100000 mod 10), digit_char (n div 10000 mod 10), digit_char (n div 1000 mod 10),
     digit_char (n div 100 mod 10), digit_char (n div 10 mod 10), digit_char (n mod 10)]"
proof -
  have six: "6 = Suc (Suc (Suc (Suc (Suc (Suc 0)))))" by simp
  show ?thesis unfolding six pad_dec.simps by (simp add: div_mult2_numeral_eq)
qed

lemmas fmt_f_eval [go_simps] = fmt_f_def f64_nan_def f64_exp_def f64_frac_def f64_finite_def
  f64_neg_def f64_micros_def f64_scale_def f64_mant_def round_div_def fixed6_def Let_def
  dec_nat.simps

lemma pad_dec_digits: "c \<in> set (pad_dec k n) \<Longrightarrow> is_digit c"
  by (induction k arbitrary: n) auto

lemma parse_pad_dec: "n < 10 ^ k \<Longrightarrow> parse_digits 0 (pad_dec k n) = Some n"
proof (induction k arbitrary: n)
  case 0
  then show ?case by simp
next
  case (Suc k)
  then have "n div 10 < 10 ^ k" by (simp add: less_mult_imp_div_less mult.commute)
  then have "parse_digits 0 (pad_dec k (n div 10)) = Some (n div 10)" by (rule Suc.IH)
  then show ?case by (simp add: parse_digits_append)
qed

lemma fixed6_digits: "c \<in> set (fixed6 n) \<Longrightarrow> is_digit c \<or> c = CHR ''.''"
  by (auto simp: fixed6_def dest: dec_nat_digits pad_dec_digits)

lemma fixed6_inject:
  assumes "0 \<le> n" and "0 \<le> m" and "fixed6 n = fixed6 m"
  shows "n = m"
proof -
  have parts: "dec_nat (nat (n div 10 ^ 6)) = dec_nat (nat (m div 10 ^ 6))
      \<and> pad_dec 6 (nat (n mod 10 ^ 6)) = pad_dec 6 (nat (m mod 10 ^ 6))"
    using assms(3) unfolding fixed6_def
    by (intro split_at_last_sep [where c = "CHR ''.''"]) (auto dest: pad_dec_digits)
  have "nat (n div 10 ^ 6) = nat (m div 10 ^ 6)"
    using parts by (metis option.inject parse_nat_dec_nat)
  moreover have small: "nat (k mod 10 ^ 6) < 10 ^ 6" for k :: int
    by (simp add: nat_less_iff)
  have "nat (n mod 10 ^ 6) = nat (m mod 10 ^ 6)"
    using parts parse_pad_dec [OF small] by (metis option.inject)
  ultimately have "n div 10 ^ 6 = m div 10 ^ 6" and "n mod 10 ^ 6 = m mod 10 ^ 6"
    using assms(1,2) by (simp_all add: eq_nat_nat_iff pos_imp_zdiv_nonneg_iff)
  then show ?thesis by (metis div_mult_mod_eq)
qed

lemma fmt_f_no_colon: "CHR '':'' \<notin> set (fmt_f w)"
  by (auto simp: fmt_f_def dest: fixed6_digits)

lemma f64_micros_nonneg: "0 \<le> f64_micros w"
  using f64_mant_nonneg [of w] by (simp add: f64_micros_def round_div_nonneg)

lemma f64_micros_close: "\<bar>of_int (f64_micros w) - f64_abs w * 10 ^ 6\<bar> \<le> 1 / 2"
proof (cases "0 \<le> f64_scale w")
  case True
  then show ?thesis by (simp add: f64_micros_def f64_abs_def)
next
  case False
  then show ?thesis
    using round_div_close [of "2 ^ nat (- f64_scale w)" "f64_mant w * 10 ^ 6"]
    by (simp add: f64_micros_def f64_abs_def)
qed

text \<open>
  Two finite numbers with the same text have the same sign and differ by at most one
  millionth; the text does not separate numbers closer than that.
\<close>

lemma fixed6_hd: "\<exists>c cs. fixed6 n = c # cs \<and> is_digit c"
  using dec_nat_hd [of "nat (n div 10 ^ 6)"] by (auto simp: fixed6_def)

lemma fmt_f_finite_eq:
  assumes "f64_finite v" and "f64_finite w" and "fmt_f v = fmt_f w"
  shows "f64_neg v = f64_neg w \<and> f64_micros v = f64_micros w"
proof -
  have nan: "\<not> f64_nan v" "\<not> f64_nan w" using assms(1,2) by (auto simp: f64_nan_def f64_finite_def)
  have eq: "(if f64_neg v then ''-'' else []) @ fixed6 (f64_micros v) =
      (if f64_neg w then ''-'' else []) @ fixed6 (f64_micros w)"
    using assms nan by (simp add: fmt_f_def)
  have "f64_neg v = f64_neg w"
    using eq fixed6_hd [of "f64_micros v"] fixed6_hd [of "f64_micros w"] not_digit_punct(1)
    by (auto split: if_splits)
  moreover from this eq have "fixed6 (f64_micros v) = fixed6 (f64_micros w)" by simp
  ultimately show ?thesis using fixed6_inject f64_micros_nonneg by blast
qed

lemma fmt_f_close:
  assumes "f64_finite v" and "f64_finite w" and "fmt_f v = fmt_f w"
  shows "\<bar>f64_val v - f64_val w\<bar> \<le> 1 / 10 ^ 6"
proof -
  have sign: "f64_neg v = f64_neg w" and "f64_micros v = f64_micros w"
    using fmt_f_finite_eq [OF assms] by auto
  then have "\<bar>f64_abs v * 10 ^ 6 - f64_abs w * 10 ^ 6\<bar> \<le> 1"
    using f64_micros_close [of v] f64_micros_close [of w] by linarith
  then have "f64_abs v - f64_abs w \<le> 1 / 10 ^ 6" and "- (f64_abs v - f64_abs w) \<le> 1 / 10 ^ 6"
    by (simp_all add: abs_le_iff field_simps)
  then have "\<bar>f64_abs v - f64_abs w\<bar> \<le> 1 / 10 ^ 6" by (rule abs_leI)
  with sign show ?thesis by (auto simp: f64_val_def abs_minus_commute)
qed

section \<open>Rounding to 53 significant bits\<close>

fun bit_len :: "int \<Rightarrow> nat" where
  "bit_len n = (if n \<le> 0 then 0 else Suc (bit_len (n div 2)))"

declare bit_len.simps [simp del]

lemma bit_len_bounds:
  assumes "0 < n"
  shows "0 < bit_len n \<and> 2 ^ (bit_len n - 1) \<le> n \<and> n < 2 ^ bit_len n"
  using assms
proof (induction n rule: bit_len.induct)
  case (1 n)
  show ?case
  proof (cases "n = 1")
    case True
    then show ?thesis by (simp add: bit_len.simps)
  next
    case False
    with 1 have IH: "0 < bit_len (n div 2)" "2 ^ (bit_len (n div 2) - 1) \<le> n div 2" "n div 2 < 2 ^ bit_len (n div 2)"
      by simp_all
    obtain k where k: "bit_len (n div 2) = Suc k" using IH(1) by (cases "bit_len (n div 2)") auto
    have "bit_len n = Suc (Suc k)" using "1.prems" k by (simp add: bit_len.simps [of n])
    moreover have "2 * 2 ^ k \<le> n" "n < 2 * (2 * 2 ^ k)" using IH(2,3) k by simp_all
    ultimately show ?thesis by simp
  qed
qed

text \<open>
  The nearest number with a 53-bit significand to \<open>n / d\<close>, for positive arguments; below
  the overflow threshold and above the subnormal range this is IEEE rounding.
\<close>

definition two_pow :: "int \<Rightarrow> rat" where
  "two_pow e = (if 0 \<le> e then 2 ^ nat e else 1 / 2 ^ nat (- e))"

definition f64_round :: "rat \<Rightarrow> rat" where
  "f64_round q = (let (n, d) = quotient_of q;
      k = int (bit_len n) - int (bit_len d);
      e = (if two_pow k \<le> q then k else k - 1) - 52;
      m = (if 0 \<le> e then round_div n (d * 2 ^ nat e) else round_div (n * 2 ^ nat (- e)) d)
   in if q = 0 then 0 else of_int m * two_pow e)"

lemma two_pow_powi: "two_pow e = 2 powi e"
  by (simp add: two_pow_def power_int_def inverse_eq_divide power_divide)

text \<open>The relative error of rounding is at most one part in 2^53.\<close>

lemma f64_round_close:
  assumes "0 < q"
  shows "\<bar>f64_round q - q\<bar> * 2 ^ 53 \<le> q"
proof -
  obtain n d where nd: "quotient_of q = (n, d)" by fastforce
  have d: "0 < d" and q: "q = of_int n / of_int d"
    using quotient_of_denom_pos [OF nd] quotient_of_div [OF nd] by simp_all
  then have n: "0 < n" using assms by (simp add: zero_less_divide_iff)
  define k where "k = int (bit_len n) - int (bit_len d)"
  define e where "e = (if two_pow k \<le> q then k else k - 1) - 52"
  define m where "m = (if 0 \<le> e then round_div n (d * 2 ^ nat e) else round_div (n * 2 ^ nat (- e)) d)"
  have r: "f64_round q = of_int m * two_pow e"
    unfolding f64_round_def nd Let_def prod.case k_def e_def m_def using assms by (intro if_not_P) simp
  have pos: "0 < two_pow e" by (simp add: two_pow_powi)
  have "\<bar>of_int m - q / two_pow e\<bar> \<le> 1 / 2"
  proof (cases "0 \<le> e")
    case True
    then show ?thesis using round_div_close [of "d * 2 ^ nat e" n] d by (simp add: m_def q two_pow_def)
  next
    case False
    then show ?thesis using round_div_close [of d "n * 2 ^ nat (- e)"] d by (simp add: m_def q two_pow_def)
  qed
  then have "\<bar>of_int m - q / two_pow e\<bar> * two_pow e \<le> 1 / 2 * two_pow e"
    using pos by (intro mult_right_mono) simp_all
  moreover have "\<bar>of_int m - q / two_pow e\<bar> * two_pow e = \<bar>f64_round q - q\<bar>"
    using pos by (simp add: r abs_mult_pos left_diff_distrib)
  ultimately have err: "\<bar>f64_round q - q\<bar> \<le> two_pow e / 2" by simp
  have "two_pow (k - 1) \<le> q"
  proof -
    have "0 < bit_len n" "2 ^ (bit_len n - 1) \<le> n" "d < 2 ^ bit_len d" using bit_len_bounds n d by auto
    then have "(2 ^ (bit_len n - 1) :: rat) \<le> of_int n" "of_int d < (2 ^ bit_len d :: rat)"
      by (metis of_int_le_iff of_int_power of_int_numeral, metis of_int_less_iff of_int_power of_int_numeral)
    then have "2 ^ (bit_len n - 1) / 2 ^ bit_len d \<le> q" unfolding q using n d by (intro frac_le) simp_all
    moreover have "two_pow (k - 1) = 2 ^ (bit_len n - 1) / 2 ^ bit_len d"
      using \<open>0 < bit_len n\<close> by (simp add: two_pow_powi k_def power_int_diff of_nat_diff flip: power_int_of_nat)
    ultimately show ?thesis by simp
  qed
  then have "two_pow (e + 52) \<le> q" by (simp add: e_def)
  moreover have "two_pow (e + 52) = two_pow e * 2 ^ 52" by (simp add: two_pow_powi power_int_add)
  ultimately have "two_pow e / 2 * 2 ^ 53 \<le> q" by simp
  with err show ?thesis by simp
qed

lemma f64_round_nonneg:
  assumes "0 \<le> q"
  shows "0 \<le> f64_round q" "f64_round q * 2 ^ 53 \<le> q * (2 ^ 53 + 1)"
proof -
  have "0 \<le> f64_round q \<and> f64_round q * 2 ^ 53 \<le> q * (2 ^ 53 + 1)"
  proof (cases "q = 0")
    case True
    then show ?thesis by (simp add: f64_round_def)
  next
    case False
    with assms have "0 < q" by simp
    from f64_round_close [OF this] this show ?thesis by (simp add: abs_le_iff abs_if split: if_splits)
  qed
  then show "0 \<le> f64_round q" "f64_round q * 2 ^ 53 \<le> q * (2 ^ 53 + 1)" by blast+
qed

end
