(* ===== verification/Models.thy ===== *)
theory Models
  imports HashUtil GoFloat
begin

text \<open>
  \<^verbatim>\<open>internal/models/metrics.go\<close> and \<^verbatim>\<open>internal/storage/types.go\<close>: a metric as it travels between agent
  and server, the two metric types, and the text of a metric that is signed. The last
  section lists the parts of the standard library that stay parameters of the model.
\<close>

section \<open>Metrics\<close>

text \<open>A nil pointer is None.\<close>

record Metrics =
  ID :: string
  MType :: string
  Delta :: "int64 option"
  Value :: "float64 option"
  Hash :: string

definition Gauge :: string where
  "Gauge = ''gauge''"

definition Counter :: string where
  "Counter = ''counter''"

lemma metric_types_distinct [simp]: "Gauge \<noteq> Counter" "Counter \<noteq> Gauge"
  by (simp_all add: Gauge_def Counter_def)

text \<open>The zero value of the struct.\<close>

definition zero_metric :: Metrics where
  "zero_metric = \<lparr>ID = [], MType = [], Delta = None, Value = None, Hash = []\<rparr>"

section \<open>The signed text of a metric\<close>

text \<open>
  \<^verbatim>\<open>fmt.Sprintf("%s:%s:%d", ...)\<close> for a counter and \<^verbatim>\<open>fmt.Sprintf("%s:%s:%f", ...)\<close> for a gauge.
\<close>

definition sprintf_d :: "string \<Rightarrow> string \<Rightarrow> int64 \<Rightarrow> string" where
  "sprintf_d i t d = i @ '':'' @ t @ '':'' @ fmt_d d"

definition sprintf_f :: "string \<Rightarrow> string \<Rightarrow> float64 \<Rightarrow> string" where
  "sprintf_f i t v = i @ '':'' @ t @ '':'' @ fmt_f v"

text \<open>
  The text determines the metric: the number has no colon, so the last colon cuts it off,
  and the two type names end the rest differently.
\<close>

lemma sprintf_nonempty [simp]: "sprintf_d i t d \<noteq> []" "sprintf_f i t v \<noteq> []"
  by (simp_all add: sprintf_d_def sprintf_f_def)

lemma sprintf_cut:
  assumes "i @ '':'' @ t @ '':'' @ x = i' @ '':'' @ t' @ '':'' @ x'"
    and "CHR '':'' \<notin> set x" and "CHR '':'' \<notin> set x'"
  shows "i @ '':'' @ t = i' @ '':'' @ t' \<and> x = x'"
  using split_at_last_sep [of "i @ '':'' @ t" "CHR '':''" x "i' @ '':'' @ t'" x'] assms by simp

lemma sprintf_d_inject: "sprintf_d i t d = sprintf_d i' t d' \<longleftrightarrow> i = i' \<and> d = d'"
  using sprintf_cut [of i t "fmt_d d" i' t "fmt_d d'"]
  by (auto simp: sprintf_d_def fmt_d_no_colon)

lemma sprintf_f_cut: "sprintf_f i t v = sprintf_f i' t v' \<longleftrightarrow> i = i' \<and> fmt_f v = fmt_f v'"
  using sprintf_cut [of i t "fmt_f v" i' t "fmt_f v'"]
  by (auto simp: sprintf_f_def fmt_f_no_colon)

lemma type_suffix: "i @ '':'' @ Gauge \<noteq> i' @ '':'' @ Counter"
proof
  assume "i @ '':'' @ Gauge = i' @ '':'' @ Counter"
  then have "last (i @ '':'' @ Gauge) = last (i' @ '':'' @ Counter)" by simp
  then show False by (simp add: Gauge_def Counter_def)
qed

lemma sprintf_types_disjoint: "sprintf_d i Counter d \<noteq> sprintf_f i' Gauge v"
  using sprintf_cut [of i Counter "fmt_d d" i' Gauge "fmt_f v"] type_suffix [of i' i]
  by (auto simp: sprintf_d_def sprintf_f_def fmt_d_no_colon fmt_f_no_colon)

definition signed_text :: "Metrics \<Rightarrow> string" where
  "signed_text m = (if MType m = Counter then sprintf_d (ID m) (MType m) (the (Delta m))
     else sprintf_f (ID m) (MType m) (the (Value m)))"

text \<open>
  C33: two well-formed metrics with finite values that have the same signed text have the same
  name and type, the same delta, and values that differ by at most one millionth; so a hash
  that verifies is the hash of this metric, up to the last printed digit.
\<close>

theorem signed_text_determines_metric:
  assumes "signed_text m = signed_text m'"
    and "MType m = Gauge \<and> Value m = Some v \<and> f64_finite v \<or> MType m = Counter \<and> Delta m = Some d"
    and "MType m' = Gauge \<and> Value m' = Some v' \<and> f64_finite v' \<or> MType m' = Counter \<and> Delta m' = Some d'"
  shows "ID m = ID m' \<and> MType m = MType m'
    \<and> (if MType m = Counter then d = d' else \<bar>f64_val v - f64_val v'\<bar> \<le> 1 / 10 ^ 6)"
  using assms(2,3)
proof (elim disjE conjE)
  assume "MType m = Gauge" "Value m = Some v" "f64_finite v" "MType m' = Gauge" "Value m' = Some v'" "f64_finite v'"
  then show ?thesis using assms(1) fmt_f_close [of v v'] by (simp add: signed_text_def sprintf_f_cut)
next
  assume "MType m = Counter" "Delta m = Some d" "MType m' = Counter" "Delta m' = Some d'"
  then show ?thesis using assms(1) by (simp add: signed_text_def sprintf_d_inject)
next
  assume "MType m = Gauge" "MType m' = Counter" "Delta m' = Some d'"
  then show ?thesis using assms(1) sprintf_types_disjoint by (metis metric_types_distinct(1) signed_text_def)
next
  assume "MType m = Counter" "MType m' = Gauge" "Value m' = Some v'"
  then show ?thesis using assms(1) sprintf_types_disjoint by (metis metric_types_distinct(1) signed_text_def)
qed

theorem signed_text_determines_metric_witness:
  "signed_text \<lparr>ID = ''a:counter'', MType = Counter, Delta = Some 1, Value = None, Hash = []\<rparr>
    \<noteq> signed_text \<lparr>ID = ''a'', MType = Counter, Delta = Some 1, Value = None, Hash = []\<rparr>"
  using signed_text_determines_metric
    [of "\<lparr>ID = ''a:counter'', MType = Counter, Delta = Some 1, Value = None, Hash = []\<rparr>"
      "\<lparr>ID = ''a'', MType = Counter, Delta = Some 1, Value = None, Hash = []\<rparr>" 0 1 0 1]
  by auto

section \<open>Library functions that stay parameters\<close>

text \<open>
  Conversions between text and float64, the JSON codec, DEFLATE and HTML templates are large
  library algorithms whose inner workings the program does not depend on; they are the
  fields of this record, and each theorem that needs one of their documented laws names it
  as a hypothesis. A codec that reports an error returns None.
\<close>

record Dump =
  Gauges :: "string \<rightharpoonup> float64"
  Counters :: "string \<rightharpoonup> int64"

text \<open>
  A body that is read as a stream: the bytes it yields, and the error that ends it instead of
  the end of the file, if any.
\<close>

record stream =
  content :: bytes
  fails :: "goerror option"

definition byte_stream :: "bytes \<Rightarrow> stream" where
  "byte_stream b = \<lparr>content = b, fails = None\<rparr>"

lemma byte_stream_simps [simp]: "content (byte_stream b) = b" "fails (byte_stream b) = None"
  "byte_stream a = byte_stream b \<longleftrightarrow> a = b"
  by (simp_all add: byte_stream_def)

record golib =
  ParseFloat :: "string \<Rightarrow> float64 option"          \<comment> \<open>\<^verbatim>\<open>strconv.ParseFloat(s, 64)\<close>\<close>
  ShowFloat :: "float64 \<Rightarrow> string"                   \<comment> \<open>\<^verbatim>\<open>fmt.Fprint(w, v)\<close>\<close>
  UnmarshalMetric :: "bytes \<Rightarrow> Metrics option"       \<comment> \<open>\<^verbatim>\<open>json.Unmarshal(body, &m)\<close>\<close>
  DecodeMetric :: "stream \<Rightarrow> Metrics option"          \<comment> \<open>\<^verbatim>\<open>json.NewDecoder(r).Decode(&m)\<close>\<close>
  DecodeBatch :: "stream \<Rightarrow> Metrics list option"      \<comment> \<open>the same for a slice of metrics\<close>
  MarshalMetric :: "Metrics \<Rightarrow> bytes option"         \<comment> \<open>\<^verbatim>\<open>json.Marshal\<close>\<close>
  MarshalBatch :: "Metrics list \<Rightarrow> bytes option"
  EncodeDump :: "Dump \<Rightarrow> bytes option"               \<comment> \<open>\<^verbatim>\<open>json.NewEncoder(file).Encode(dump)\<close>\<close>
  DecodeDump :: "bytes \<Rightarrow> Dump option"
  Gzip :: "bytes \<Rightarrow> bytes"                           \<comment> \<open>\<^verbatim>\<open>gzip.Writer\<close>: what Write and Close emit for these bytes\<close>
  Gunzip :: "stream \<Rightarrow> stream option"                \<comment> \<open>\<^verbatim>\<open>gzip.NewReader\<close>: None for a bad header\<close>
  IndexPage :: "(string \<rightharpoonup> float64) \<Rightarrow> (string \<rightharpoonup> int64) \<Rightarrow> bytes"  \<comment> \<open>\<^verbatim>\<open>html/template\<close>\<close>

text \<open>
  A small instance on which the theorems with a codec hypothesis are exercised: it knows the
  JSON texts of a few values (written with a hash for each double quote), and its compressed form is a two-byte header before the data.
\<close>

definition f64_one_half :: float64 where "f64_one_half = 0x3FE0000000000000"
definition f64_NaN :: float64 where "f64_NaN = 0x7FF8000000000001"

definition sample_dump :: Dump where
  "sample_dump = \<lparr>Gauges = [''g'' \<mapsto> f64_one_half], Counters = [''c'' \<mapsto> 7]\<rparr>"

definition sample_dump_text :: bytes where
  "sample_dump_text = ''{#gauges#:{#g#:0.5},#counters#:{#c#:7}}''"

definition sample_gauge :: Metrics where
  "sample_gauge = \<lparr>ID = ''g'', MType = ''gauge'', Delta = None, Value = Some f64_one_half, Hash = []\<rparr>"

definition sample_counter :: Metrics where
  "sample_counter = \<lparr>ID = ''c'', MType = ''counter'', Delta = Some 7, Value = None, Hash = []\<rparr>"

definition sample_query :: Metrics where
  "sample_query = \<lparr>ID = ''g'', MType = ''gauge'', Delta = None, Value = None, Hash = []\<rparr>"

definition sample_gauge_text :: bytes where
  "sample_gauge_text = ''{#id#:#g#,#type#:#gauge#,#value#:0.5}''"

definition sample_counter_text :: bytes where
  "sample_counter_text = ''{#id#:#c#,#type#:#counter#,#delta#:7}''"

definition sample_query_text :: bytes where
  "sample_query_text = ''{#id#:#g#,#type#:#gauge#}''"

definition sample_codec :: "(Metrics \<times> bytes) list" where
  "sample_codec = [(sample_gauge, sample_gauge_text), (sample_counter, sample_counter_text), (sample_query, sample_query_text)]"

definition decode_sample :: "bytes \<Rightarrow> Metrics option" where
  "decode_sample b = map_of (map prod.swap sample_codec) b"

definition sample_batch_text :: bytes where
  "sample_batch_text = ''[{#id#:#c#,#type#:#counter#,#delta#:7},{#id#:#g#,#type#:#gauge#,#value#:0.5}]''"

definition sample_lib :: golib where
  "sample_lib = \<lparr>
     ParseFloat = [''0.5'' \<mapsto> f64_one_half, ''NaN'' \<mapsto> f64_NaN],
     ShowFloat = (\<lambda>v. if v = f64_one_half then ''0.5'' else ''NaN''),
     UnmarshalMetric = decode_sample, DecodeMetric = (\<lambda>s. decode_sample (content s)),
     DecodeBatch = (\<lambda>s. if content s = sample_batch_text then Some [sample_counter, sample_gauge] else None),
     MarshalMetric = map_of sample_codec,
     MarshalBatch = [[sample_counter, sample_gauge] \<mapsto> sample_batch_text],
     EncodeDump = [sample_dump \<mapsto> sample_dump_text],
     DecodeDump = [sample_dump_text \<mapsto> sample_dump],
     Gzip = (\<lambda>b. CHR 0x1F # CHR 0x8B # b),
     Gunzip = (\<lambda>s. case content s of
        x # y # r \<Rightarrow> if x = CHR 0x1F \<and> y = CHR 0x8B then Some (s\<lparr>content := r\<rparr>) else None
      | _ \<Rightarrow> None),
     IndexPage = (\<lambda>_ _. ''index'')\<rparr>"

lemma sample_texts_distinct [simp]:
  "sample_gauge_text \<noteq> sample_counter_text" "sample_gauge_text \<noteq> sample_query_text"
  "sample_counter_text \<noteq> sample_gauge_text" "sample_counter_text \<noteq> sample_query_text"
  "sample_query_text \<noteq> sample_gauge_text" "sample_query_text \<noteq> sample_counter_text"
  by (simp_all add: sample_gauge_text_def sample_counter_text_def sample_query_text_def)

lemma sample_lib_simps [simp]:
  "UnmarshalMetric sample_lib b = decode_sample b"
  "DecodeMetric sample_lib s = decode_sample (content s)"
  "decode_sample sample_gauge_text = Some sample_gauge"
  "decode_sample sample_counter_text = Some sample_counter"
  "decode_sample sample_query_text = Some sample_query"
  "MarshalMetric sample_lib m = map_of sample_codec m"
  "DecodeBatch sample_lib s = (if content s = sample_batch_text then Some [sample_counter, sample_gauge] else None)"
  by (simp_all add: sample_lib_def decode_sample_def sample_codec_def)

lemma sample_fields [simp]:
  "ID sample_gauge = ''g''" "MType sample_gauge = ''gauge''" "Value sample_gauge = Some f64_one_half"
  "Hash sample_gauge = []" "Delta sample_gauge = None"
  "ID sample_counter = ''c''" "MType sample_counter = ''counter''" "Value sample_counter = None"
  "Hash sample_counter = []" "Delta sample_counter = Some 7"
  "ID sample_query = ''g''" "MType sample_query = ''gauge''" "Value sample_query = None"
  "Hash sample_query = []" "Delta sample_query = None"
  by (simp_all add: sample_gauge_def sample_counter_def sample_query_def)

end
