(* ===== verification/Http.thy ===== *)
theory Http
  imports Models
begin

text \<open>
  What the program uses of package net/http: requests with headers and a body that is read as a
  stream, and the ResponseWriter, whose first WriteHeader fixes the status and the headers
  that are sent. Writing a body without a status sends 200; a broken connection makes Write
  fail, which the program only logs.
\<close>

section \<open>Headers\<close>

type_synonym header = "string \<rightharpoonup> string"

text \<open>\<^verbatim>\<open>textproto.CanonicalMIMEHeaderKey\<close> on names made of token characters, as all names here are.\<close>

definition upper_char :: "char \<Rightarrow> char" where
  "upper_char c = (let n = (of_char c :: nat) in if 97 \<le> n \<and> n \<le> 122 then char_of (n - 32) else c)"

fun canonical :: "bool \<Rightarrow> string \<Rightarrow> string" where
  "canonical start [] = []"
| "canonical start (c # cs) = (if start then upper_char c else lower_char c) # canonical (c = CHR ''-'') cs"

definition Header_Get :: "header \<Rightarrow> string \<Rightarrow> string" where
  "Header_Get h k = (case h (canonical True k) of None \<Rightarrow> [] | Some v \<Rightarrow> v)"

definition Header_Set :: "string \<Rightarrow> string \<Rightarrow> header \<Rightarrow> header" where
  "Header_Set k v h = h(canonical True k \<mapsto> v)"

lemma Header_Get_Set [simp]:
  "Header_Get (Header_Set k v h) j = (if canonical True j = canonical True k then v else Header_Get h j)"
  by (simp add: Header_Get_def Header_Set_def)

lemma Header_Get_empty [simp]: "Header_Get Map.empty k = []"
  by (simp add: Header_Get_def)

definition Content_Type :: string where "Content_Type = ''Content-Type''"
definition Content_Encoding :: string where "Content_Encoding = ''Content-Encoding''"
definition Accept_Encoding :: string where "Accept_Encoding = ''Accept-Encoding''"
definition HashSHA256 :: string where "HashSHA256 = ''HashSHA256''"
definition Hash_Header :: string where "Hash_Header = ''Hash''"
definition application_json :: string where "application_json = ''application/json''"

lemma header_names [simp]:
  "canonical True Content_Type = ''Content-Type''"
  "canonical True Content_Encoding = ''Content-Encoding''"
  "canonical True Accept_Encoding = ''Accept-Encoding''"
  "canonical True HashSHA256 = ''Hashsha256''"
  "canonical True Hash_Header = ''Hash''"
  by (simp_all add: Content_Type_def Content_Encoding_def Accept_Encoding_def HashSHA256_def Hash_Header_def
      upper_char_def lower_char_def char_of_eq_iff)

section \<open>Requests\<close>

record request =
  Method :: string
  Path :: string
  URLParam :: "string \<Rightarrow> string"     \<comment> \<open>\<^verbatim>\<open>chi.URLParam\<close>; empty when the pattern has no such name\<close>
  ReqHeader :: header
  Body :: stream
  ContentLength :: int

definition ReadAll :: "stream \<Rightarrow> goerror + bytes" where
  "ReadAll b = (case fails b of None \<Rightarrow> Inr (content b) | Some e \<Rightarrow> Inl e)"

lemma ReadAll_simps [simp]: "ReadAll (byte_stream b) = Inr b"
  "ReadAll s = Inr b \<longleftrightarrow> s = byte_stream b"
  by (cases s; auto simp: ReadAll_def byte_stream_def split: option.splits)+

section \<open>The response writer\<close>

record writer =
  status :: "nat option"
  rheader :: header        \<comment> \<open>the map \<^verbatim>\<open>w.Header()\<close>\<close>
  sent :: header           \<comment> \<open>its copy at the first WriteHeader\<close>
  rbody :: bytes
  broken :: bool           \<comment> \<open>the client is gone\<close>
  header_calls :: "nat list"  \<comment> \<open>the codes the handler passed to WriteHeader, in order\<close>

definition new_writer :: writer where
  "new_writer = \<lparr>status = None, rheader = Map.empty, sent = Map.empty, rbody = [], broken = False, header_calls = []\<rparr>"

definition commit_header :: "nat \<Rightarrow> writer \<Rightarrow> writer" where
  "commit_header code w = (if status w = None then w\<lparr>status := Some code, sent := rheader w\<rparr> else w)"

definition WriteHeader :: "nat \<Rightarrow> writer \<Rightarrow> writer" where
  "WriteHeader code w = (commit_header code w)\<lparr>header_calls := header_calls w @ [code]\<rparr>"

definition Write :: "bytes \<Rightarrow> writer \<Rightarrow> writer" where
  "Write b w = (let w1 = commit_header 200 w in if broken w1 then w1 else w1\<lparr>rbody := rbody w1 @ b\<rparr>)"

definition set_header :: "string \<Rightarrow> string \<Rightarrow> writer \<Rightarrow> writer" where
  "set_header k v w = w\<lparr>rheader := Header_Set k v (rheader w)\<rparr>"

text \<open>\<^verbatim>\<open>http.Error\<close>\<close>

definition http_error :: "string \<Rightarrow> nat \<Rightarrow> writer \<Rightarrow> writer" where
  "http_error msg code w = Write (msg @ [CHR 0x0A])
     (WriteHeader code (set_header ''X-Content-Type-Options'' ''nosniff''
        (set_header Content_Type ''text/plain; charset=utf-8'' w)))"

text \<open>What the server sends when the handler has returned.\<close>

definition status_of :: "writer \<Rightarrow> nat" where
  "status_of w = (case status w of None \<Rightarrow> 200 | Some c \<Rightarrow> c)"

definition fresh :: "writer \<Rightarrow> bool" where
  "fresh w \<longleftrightarrow> status w = None \<and> rbody w = [] \<and> \<not> broken w \<and> header_calls w = []"

lemma fresh_new [simp]: "fresh new_writer"
  by (simp add: fresh_def new_writer_def)

lemma writer_simps [simp]:
  "status (WriteHeader c w) = Some (case status w of None \<Rightarrow> c | Some d \<Rightarrow> d)"
  "rbody (WriteHeader c w) = rbody w"
  "broken (WriteHeader c w) = broken w"
  "rheader (WriteHeader c w) = rheader w"
  "status (set_header k v w) = status w"
  "rbody (set_header k v w) = rbody w"
  "broken (set_header k v w) = broken w"
  "rheader (set_header k v w) = Header_Set k v (rheader w)"
  "status (Write b w) = Some (case status w of None \<Rightarrow> 200 | Some d \<Rightarrow> d)"
  "rbody (Write b w) = (if broken w then rbody w else rbody w @ b)"
  "broken (Write b w) = broken w"
  "rheader (Write b w) = rheader w"
  "header_calls (WriteHeader c w) = header_calls w @ [c]"
  "header_calls (Write b w) = header_calls w"
  "header_calls (set_header k v w) = header_calls w"
  "sent (WriteHeader c w) = (case status w of None \<Rightarrow> rheader w | Some d \<Rightarrow> sent w)"
  "sent (Write b w) = (case status w of None \<Rightarrow> rheader w | Some d \<Rightarrow> sent w)"
  "sent (set_header k v w) = sent w"
  by (auto simp: commit_header_def WriteHeader_def set_header_def Write_def Let_def split: option.splits)

lemma status_of_simps [simp]:
  "status_of (WriteHeader c w) = (case status w of None \<Rightarrow> c | Some d \<Rightarrow> d)"
  "status_of (Write b w) = (case status w of None \<Rightarrow> 200 | Some d \<Rightarrow> d)"
  "status_of (set_header k v w) = status_of w"
  by (simp_all add: status_of_def)

lemma fresh_simps [simp]: "fresh w \<Longrightarrow> status w = None" "fresh w \<Longrightarrow> rbody w = []" "fresh w \<Longrightarrow> \<not> broken w"
  "fresh w \<Longrightarrow> header_calls w = []" "fresh (set_header k v w) = fresh w"
  by (auto simp: fresh_def)

end
