(* ===== verification/Storage.thy ===== *)
theory Storage
  imports Models "HOL-Library.Multiset"
begin

text \<open>
  \<^verbatim>\<open>internal/storage/storage.go\<close>: the contract behind the interface \<open>Storage\<close>. The abstract state of a
  store is a gauge map and a counter map; setting a gauge replaces, adding to a counter
  accumulates with the wrap-around of int64. The locale \<open>metric_store\<close> states what an
  implementation promises; the theories MemStorage and DBStorage interpret it. The facts on
  sequences of operations are proved here once.
\<close>

section \<open>The abstract store\<close>

record metric_state =
  g_of :: "string \<rightharpoonup> float64"
  c_of :: "string \<rightharpoonup> int64"

datatype metric_op = SetGauge string float64 | AddCounter string int64

text \<open>Reading a Go map: the zero value when the key is absent.\<close>

definition go_get :: "('k \<rightharpoonup> 'a::zero) \<Rightarrow> 'k \<Rightarrow> 'a" where
  "go_get m k = (case m k of None \<Rightarrow> 0 | Some v \<Rightarrow> v)"

lemma go_get_upd [simp]: "go_get (m(k \<mapsto> v)) j = (if j = k then v else go_get m j)"
  by (simp add: go_get_def)

lemma go_get_None [simp]: "m k = None \<Longrightarrow> go_get m k = 0"
  and go_get_Some [simp]: "m k = Some v \<Longrightarrow> go_get m k = v"
  by (simp_all add: go_get_def)

fun apply_op :: "metric_op \<Rightarrow> metric_state \<Rightarrow> metric_state" where
  "apply_op (SetGauge n v) a = a\<lparr>g_of := (g_of a)(n \<mapsto> v)\<rparr>"
| "apply_op (AddCounter n d) a = a\<lparr>c_of := (c_of a)(n \<mapsto> go_get (c_of a) n + d)\<rparr>"

definition apply_ops :: "metric_op list \<Rightarrow> metric_state \<Rightarrow> metric_state" where
  "apply_ops ops a = fold apply_op ops a"

lemma apply_ops_simps [simp]:
  "apply_ops [] a = a"
  "apply_ops (x # xs) a = apply_ops xs (apply_op x a)"
  "apply_ops (xs @ ys) a = apply_ops ys (apply_ops xs a)"
  by (simp_all add: apply_ops_def)

text \<open>What a sequence of operations adds to one counter.\<close>

fun delta_on :: "string \<Rightarrow> metric_op \<Rightarrow> int64" where
  "delta_on n (AddCounter m d) = (if m = n then d else 0)"
| "delta_on n (SetGauge m v) = 0"

fun touches :: "string \<Rightarrow> metric_op \<Rightarrow> bool" where
  "touches n (AddCounter m d) = (m = n)"
| "touches n (SetGauge m v) = False"

lemma counter_total:
  "go_get (c_of (apply_ops ops a)) n = go_get (c_of a) n + (\<Sum>x\<leftarrow>ops. delta_on n x)"
proof (induction ops arbitrary: a)
  case (Cons x xs)
  then show ?case by (cases x) (simp_all add: add.assoc go_get_def)
qed simp

lemma counter_known:
  "c_of (apply_ops ops a) n = None \<longleftrightarrow> c_of a n = None \<and> \<not> (\<exists>x \<in> set ops. touches n x)"
proof (induction ops arbitrary: a)
  case (Cons x xs)
  then show ?case by (cases x) auto
qed simp

lemma counter_map_eq:
  "c_of (apply_ops ops a) n =
    (if c_of a n = None \<and> \<not> (\<exists>x \<in> set ops. touches n x) then None
     else Some (go_get (c_of a) n + (\<Sum>x\<leftarrow>ops. delta_on n x)))"
proof (cases "c_of (apply_ops ops a) n")
  case None
  then show ?thesis using counter_known [of ops a n] by simp
next
  case (Some c)
  then show ?thesis using counter_known [of ops a n] counter_total [of ops a n] by auto
qed

text \<open>Within the range of int64 the sum is the sum of the signed values.\<close>

definition in_int64 :: "int \<Rightarrow> bool" where
  "in_int64 i \<longleftrightarrow> - (2 ^ 63) \<le> i \<and> i < 2 ^ 63"

lemma sint_word_of_int64: "in_int64 i \<Longrightarrow> sint (word_of_int i :: int64) = i"
  by (simp add: in_int64_def signed_of_int signed_take_bit_int_eq_self)

lemma word_sum_list: "(\<Sum>w\<leftarrow>ws. w) = (word_of_int (\<Sum>w\<leftarrow>ws. sint w) :: int64)"
  by (induction ws) simp_all

lemma sint_sum_list:
  "in_int64 (\<Sum>w\<leftarrow>ws. sint w) \<Longrightarrow> sint (\<Sum>w\<leftarrow>ws. w :: int64) = (\<Sum>w\<leftarrow>ws. sint w)"
  by (simp only: word_sum_list sint_word_of_int64)

text \<open>Counters do not depend on the order of the operations.\<close>

lemma counters_permute:
  assumes "mset xs = mset ys"
  shows "c_of (apply_ops xs a) = c_of (apply_ops ys a)"
proof
  fix n
  have "(\<Sum>x\<leftarrow>xs. delta_on n x) = (\<Sum>x\<leftarrow>ys. delta_on n x)"
    using assms by (metis mset_map sum_mset_sum_list)
  moreover have "set xs = set ys" using assms by (metis set_mset_mset)
  ultimately show "c_of (apply_ops xs a) n = c_of (apply_ops ys a) n"
    by (simp add: counter_map_eq)
qed

text \<open>A gauge holds the last value that was set.\<close>

fun gauge_on :: "string \<Rightarrow> metric_op \<Rightarrow> float64 option \<Rightarrow> float64 option" where
  "gauge_on n (SetGauge m v) old = (if m = n then Some v else old)"
| "gauge_on n (AddCounter m d) old = old"

lemma gauge_last: "g_of (apply_ops ops a) n = fold (gauge_on n) ops (g_of a n)"
proof (induction ops arbitrary: a)
  case (Cons x xs)
  then show ?case by (cases x) auto
qed simp

text \<open>
  The metric an operation writes; operations on different metrics commute, and so do two
  additions.
\<close>

fun op_key :: "metric_op \<Rightarrow> string \<times> string" where
  "op_key (SetGauge n v) = (n, Gauge)"
| "op_key (AddCounter n d) = (n, Counter)"

lemma apply_op_commute:
  assumes "op_key x \<noteq> op_key y"
  shows "apply_op x (apply_op y a) = apply_op y (apply_op x a)"
  using assms by (cases x; cases y) (auto simp: fun_upd_twist)

lemma apply_ops_commute:
  "(\<And>y. y \<in> set ys \<Longrightarrow> op_key x \<noteq> op_key y) \<Longrightarrow> apply_op x (apply_ops ys a) = apply_ops ys (apply_op x a)"
  by (induction ys arbitrary: a) (simp_all add: apply_op_commute)

lemma apply_ops_remove:
  assumes "distinct (map op_key xs)" and "x \<in> set xs"
  shows "apply_ops xs a = apply_ops (remove1 x xs) (apply_op x a)"
  using assms
proof (induction xs arbitrary: a)
  case (Cons y ys)
  show ?case
  proof (cases "x = y")
    case False
    with Cons.prems have "x \<in> set ys" and "op_key x \<noteq> op_key y" by (auto simp: image_iff)
    then show ?thesis using Cons False by (simp add: apply_op_commute)
  qed simp
qed simp

lemma apply_ops_permute:
  assumes "distinct (map op_key xs)" and "mset xs = mset ys"
  shows "apply_ops xs a = apply_ops ys a"
  using assms
proof (induction ys arbitrary: xs a)
  case (Cons y ys)
  then have "y \<in> set xs" by (metis list.set_intros(1) set_mset_mset)
  moreover have "mset (remove1 y xs) = mset ys" using Cons.prems(2) by simp
  moreover have "distinct (map op_key (remove1 y xs))"
    using Cons.prems(1) by (simp add: distinct_map inj_on_diff)
  ultimately show ?case using Cons.IH Cons.prems(1) by (simp add: apply_ops_remove)
qed simp

section \<open>The operation a metric asks for\<close>

definition op_of :: "Metrics \<Rightarrow> metric_op option" where
  "op_of m = (if MType m = Gauge then map_option (SetGauge (ID m)) (Value m)
     else if MType m = Counter then map_option (AddCounter (ID m)) (Delta m) else None)"

definition wf_metric :: "Metrics \<Rightarrow> bool" where
  "wf_metric m \<longleftrightarrow> MType m = Gauge \<and> Value m \<noteq> None \<or> MType m = Counter \<and> Delta m \<noteq> None"

lemma wf_metric_op: "wf_metric m \<longleftrightarrow> op_of m \<noteq> None"
  by (auto simp: wf_metric_def op_of_def)

lemma op_of_key: "op_of m = Some x \<Longrightarrow> op_key x = (ID m, MType m)"
  by (auto simp: op_of_def split: if_splits)

definition ops_of :: "Metrics list \<Rightarrow> metric_op list" where
  "ops_of ms = List.map_filter op_of ms"

lemma ops_of_simps [simp]:
  "ops_of [] = []"
  "ops_of (m # ms) = (case op_of m of None \<Rightarrow> ops_of ms | Some x \<Rightarrow> x # ops_of ms)"
  "ops_of (ms @ ns) = ops_of ms @ ops_of ns"
  by (simp_all add: ops_of_def List.map_filter_def split: option.splits)

section \<open>The contract of a store\<close>

definition result_of :: "goerror + 'a \<Rightarrow> 'a option" where
  "result_of r = (case r of Inl e \<Rightarrow> None | Inr v \<Rightarrow> Some v)"

lemma result_of_simps [simp]: "result_of (Inl e) = None" "result_of (Inr v) = Some v"
  by (simp_all add: result_of_def)

text \<open>
  \<open>ok\<close> is the implementation's invariant, \<open>accepts s x\<close> says that the store can carry out \<open>x\<close>
  in state \<open>s\<close>, \<open>abst\<close> reads the abstract state off. The reading operations return the new
  state too, since reading a database takes time.
\<close>

locale metric_store =
  fixes perform :: "metric_op \<Rightarrow> 's \<Rightarrow> 's"
    and get_gauge :: "string \<Rightarrow> 's \<Rightarrow> (goerror + float64) \<times> 's"
    and get_counter :: "string \<Rightarrow> 's \<Rightarrow> (goerror + int64) \<times> 's"
    and update_batch :: "Metrics list \<Rightarrow> 's \<Rightarrow> goerror option \<times> 's"
    and abst :: "'s \<Rightarrow> metric_state"
    and ok :: "'s \<Rightarrow> bool"
    and accepts :: "'s \<Rightarrow> metric_op list \<Rightarrow> bool"
  assumes abst_perform: "ok s \<Longrightarrow> accepts s [x] \<Longrightarrow> abst (perform x s) = apply_op x (abst s)"
    and ok_perform: "ok s \<Longrightarrow> ok (perform x s)"
    and get_gauge_Some: "ok s \<Longrightarrow> g_of (abst s) n = Some v \<Longrightarrow> fst (get_gauge n s) = Inr v"
    and get_gauge_None: "ok s \<Longrightarrow> g_of (abst s) n = None \<Longrightarrow> \<exists>e. fst (get_gauge n s) = Inl e"
    and get_counter_Some: "ok s \<Longrightarrow> c_of (abst s) n = Some c \<Longrightarrow> fst (get_counter n s) = Inr c"
    and get_counter_None: "ok s \<Longrightarrow> c_of (abst s) n = None \<Longrightarrow> \<exists>e. fst (get_counter n s) = Inl e"
    and abst_get: "ok s \<Longrightarrow> abst (snd (get_gauge n s)) = abst s" "ok s \<Longrightarrow> abst (snd (get_counter n s)) = abst s"
    and ok_get: "ok s \<Longrightarrow> ok (snd (get_gauge n s))" "ok s \<Longrightarrow> ok (snd (get_counter n s))"
    and batch_result: "ok s \<Longrightarrow> \<forall>m \<in> set ms. wf_metric m \<Longrightarrow> accepts s (ops_of ms)
        \<Longrightarrow> fst (update_batch ms s) = None \<and> abst (snd (update_batch ms s)) = apply_ops (ops_of ms) (abst s)"
    and ok_batch: "ok s \<Longrightarrow> ok (snd (update_batch ms s))"
    and accepts_Cons: "ok s \<Longrightarrow> accepts s (x # xs) \<longleftrightarrow> accepts s [x] \<and> accepts (perform x s) xs"
begin

text \<open>The reading operations show the abstract state, whatever the error texts are.\<close>

lemma get_results:
  assumes "ok s"
  shows "result_of (fst (get_gauge n s)) = g_of (abst s) n"
    and "result_of (fst (get_counter n s)) = c_of (abst s) n"
proof -
  show "result_of (fst (get_gauge n s)) = g_of (abst s) n"
    using get_gauge_Some [OF assms, of n] get_gauge_None [OF assms, of n]
    by (cases "g_of (abst s) n") auto
  show "result_of (fst (get_counter n s)) = c_of (abst s) n"
    using get_counter_Some [OF assms, of n] get_counter_None [OF assms, of n]
    by (cases "c_of (abst s) n") auto
qed

text \<open>A run of single updates refines the run of abstract operations.\<close>

lemma abst_run: "ok s \<Longrightarrow> accepts s xs \<Longrightarrow> abst (fold perform xs s) = apply_ops xs (abst s)"
proof (induction xs arbitrary: s)
  case (Cons x xs)
  then have "accepts s [x]" and "accepts (perform x s) xs" using accepts_Cons by blast+
  with Cons show ?case by (simp add: abst_perform ok_perform)
qed simp

lemma ok_run: "ok s \<Longrightarrow> ok (fold perform xs s)"
  by (induction xs arbitrary: s) (auto simp: ok_perform)

text \<open>A batch and the same updates one by one reach the same abstract state.\<close>

lemma batch_as_run:
  assumes "ok s" and "\<forall>m \<in> set ms. wf_metric m" and "accepts s (ops_of ms)"
  shows "abst (snd (update_batch ms s)) = abst (fold perform (ops_of ms) s)"
  using assms by (simp add: batch_result abst_run)

text \<open>Reading back: after a run, a counter is its old value plus what was added.\<close>

lemma read_counter_after:
  assumes "ok s" and "accepts s xs" and "\<exists>x \<in> set xs. touches n x"
  shows "fst (get_counter n (fold perform xs s))
    = Inr (go_get (c_of (abst s)) n + (\<Sum>x\<leftarrow>xs. delta_on n x))"
  using assms by (intro get_counter_Some) (auto simp: ok_run abst_run counter_map_eq)

lemma read_gauge_after:
  assumes "ok s" and "accepts s xs" and "fold (gauge_on n) xs (g_of (abst s) n) = Some v"
  shows "fst (get_gauge n (fold perform xs s)) = Inr v"
  using assms by (intro get_gauge_Some) (auto simp: ok_run abst_run gauge_last)

lemma read_after_add:
  assumes "ok s" and "accepts s [AddCounter n d]"
  shows "fst (get_counter n (perform (AddCounter n d) s)) = Inr (go_get (c_of (abst s)) n + d)"
  using read_counter_after [of s "[AddCounter n d]" n] assms by simp

end

end
