(* ===== verification/MemStorage.thy ===== *)
theory MemStorage
  imports Storage
begin

text \<open>
  \<^verbatim>\<open>internal/storage/memstorage.go\<close>: the in-memory store and its file. Every method holds the mutex
  for its whole body (LoadFromFile and SaveToFile for the part that touches the maps), so a
  method is one atomic step on the two maps. A file system is a map from names to contents
  with the errors that opening, creating and writing a file may give.
\<close>

section \<open>State and construction\<close>

record MemStorage =
  gauges :: "string \<rightharpoonup> float64"
  counters :: "string \<rightharpoonup> int64"

definition NewMemStorage :: MemStorage where
  "NewMemStorage = \<lparr>gauges = Map.empty, counters = Map.empty\<rparr>"

section \<open>Single updates and reads\<close>

definition Mem_UpdateGauge :: "string \<Rightarrow> float64 \<Rightarrow> MemStorage \<Rightarrow> MemStorage" where
  "Mem_UpdateGauge name value s = s\<lparr>gauges := (gauges s)(name \<mapsto> value)\<rparr>"

definition Mem_UpdateCounter :: "string \<Rightarrow> int64 \<Rightarrow> MemStorage \<Rightarrow> MemStorage" where
  "Mem_UpdateCounter name value s =
     s\<lparr>counters := (counters s)(name \<mapsto> go_get (counters s) name + value)\<rparr>"

definition Mem_GetGauge :: "string \<Rightarrow> MemStorage \<Rightarrow> goerror + float64" where
  "Mem_GetGauge name s = (case gauges s name of
     None \<Rightarrow> Inl (TextErr (''gauge metric '' @ name @ '' not found''))
   | Some value \<Rightarrow> Inr value)"

definition Mem_GetCounter :: "string \<Rightarrow> MemStorage \<Rightarrow> goerror + int64" where
  "Mem_GetCounter name s = (case counters s name of
     None \<Rightarrow> Inl (TextErr (''counter metric '' @ name @ '' not found''))
   | Some value \<Rightarrow> Inr value)"

definition Mem_GetAllGauges :: "MemStorage \<Rightarrow> (string \<rightharpoonup> float64)" where
  "Mem_GetAllGauges s = gauges s"

definition Mem_GetAllCounters :: "MemStorage \<Rightarrow> (string \<rightharpoonup> int64)" where
  "Mem_GetAllCounters s = counters s"

definition Mem_Ping :: "MemStorage \<Rightarrow> goerror option" where
  "Mem_Ping s = None"

definition Mem_IsDatabase :: "MemStorage \<Rightarrow> bool" where
  "Mem_IsDatabase s = False"

definition Mem_IsAvailable :: "MemStorage \<Rightarrow> bool" where
  "Mem_IsAvailable s = True"

section \<open>Batches\<close>

text \<open>The loop of UpdateBatch: it returns at the first bad metric and keeps what it did before.\<close>

fun mem_batch_loop :: "Metrics list \<Rightarrow> MemStorage \<Rightarrow> goerror option \<times> MemStorage" where
  "mem_batch_loop [] s = (None, s)"
| "mem_batch_loop (m # ms) s =
     (if MType m = ''gauge'' then
        (case Value m of
           None \<Rightarrow> (Some (TextErr (''gauge metric '' @ ID m @ '' has nil value'')), s)
         | Some v \<Rightarrow> mem_batch_loop ms (s\<lparr>gauges := (gauges s)(ID m \<mapsto> v)\<rparr>))
      else if MType m = ''counter'' then
        (case Delta m of
           None \<Rightarrow> (Some (TextErr (''counter metric '' @ ID m @ '' has nil delta'')), s)
         | Some d \<Rightarrow>
             mem_batch_loop ms (s\<lparr>counters := (counters s)(ID m \<mapsto> go_get (counters s) (ID m) + d)\<rparr>))
      else (Some (TextErr (''unknown metric type: '' @ MType m)), s))"

definition Mem_UpdateBatch :: "Metrics list \<Rightarrow> MemStorage \<Rightarrow> goerror option \<times> MemStorage" where
  "Mem_UpdateBatch metrics s = (if length metrics = 0 then (None, s) else mem_batch_loop metrics s)"

section \<open>Files\<close>

record filesystem =
  files :: "string \<rightharpoonup> bytes"
  open_error :: "string \<Rightarrow> goerror option"
  create_error :: "string \<Rightarrow> goerror option"
  write_error :: "string \<Rightarrow> (nat \<times> goerror) option" \<comment> \<open>bytes written before the error\<close>

definition not_exist :: "string \<Rightarrow> goerror" where
  "not_exist f = TextErr (''open '' @ f @ '': no such file or directory'')"

text \<open>\<^verbatim>\<open>os.Open\<close> with the content to be read, \<^verbatim>\<open>os.Create\<close>, which truncates, and one write.\<close>

definition os_open :: "string \<Rightarrow> filesystem \<Rightarrow> goerror + bytes" where
  "os_open f fs = (case open_error fs f of Some e \<Rightarrow> Inl e
     | None \<Rightarrow> (case files fs f of None \<Rightarrow> Inl (not_exist f) | Some b \<Rightarrow> Inr b))"

definition os_create :: "string \<Rightarrow> filesystem \<Rightarrow> goerror option \<times> filesystem" where
  "os_create f fs = (case create_error fs f of Some e \<Rightarrow> (Some e, fs)
     | None \<Rightarrow> (None, fs\<lparr>files := (files fs)(f \<mapsto> [])\<rparr>))"

definition file_write :: "string \<Rightarrow> bytes \<Rightarrow> filesystem \<Rightarrow> goerror option \<times> filesystem" where
  "file_write f b fs = (let old = (case files fs f of None \<Rightarrow> [] | Some c \<Rightarrow> c) in
     case write_error fs f of
       Some (k, e) \<Rightarrow> (Some e, fs\<lparr>files := (files fs)(f \<mapsto> old @ take k b)\<rparr>)
     | None \<Rightarrow> (None, fs\<lparr>files := (files fs)(f \<mapsto> old @ b)\<rparr>))"

definition json_unsupported :: goerror where
  "json_unsupported = TextErr ''json: unsupported value''"

definition json_malformed :: goerror where
  "json_malformed = TextErr ''invalid JSON''"

definition Mem_SaveToFile :: "golib \<Rightarrow> string \<Rightarrow> MemStorage \<Rightarrow> filesystem \<Rightarrow> goerror option \<times> filesystem" where
  "Mem_SaveToFile L filename s fs =
     (let dump = \<lparr>Gauges = gauges s, Counters = counters s\<rparr> in
      case os_create filename fs of
        (Some e, fs1) \<Rightarrow> (Some (WrapErr (''failed to create file '' @ filename @ '': '') e), fs1)
      | (None, fs1) \<Rightarrow>
         (case EncodeDump L dump of
            None \<Rightarrow> (Some (WrapErr (''failed to encode data to file '' @ filename @ '': '') json_unsupported), fs1)
          | Some b \<Rightarrow>
             (case file_write filename b fs1 of
                (Some e, fs2) \<Rightarrow> (Some (WrapErr (''failed to encode data to file '' @ filename @ '': '') e), fs2)
              | (None, fs2) \<Rightarrow> (None, fs2))))"

definition Mem_LoadFromFile :: "golib \<Rightarrow> string \<Rightarrow> filesystem \<Rightarrow> MemStorage \<Rightarrow> goerror option \<times> MemStorage" where
  "Mem_LoadFromFile L filename fs s =
     (case os_open filename fs of
        Inl e \<Rightarrow> (Some (WrapErr (''failed to open file '' @ filename @ '': '') e), s)
      | Inr b \<Rightarrow>
         (case DecodeDump L b of
            None \<Rightarrow> (Some (WrapErr (''failed to decode data from file '' @ filename @ '': '') json_malformed), s)
          | Some dump \<Rightarrow> (None, s\<lparr>gauges := Gauges dump, counters := Counters dump\<rparr>)))"

section \<open>The contract\<close>

definition mem_abs :: "MemStorage \<Rightarrow> metric_state" where
  "mem_abs s = \<lparr>g_of = gauges s, c_of = counters s\<rparr>"

fun mem_perform :: "metric_op \<Rightarrow> MemStorage \<Rightarrow> MemStorage" where
  "mem_perform (SetGauge n v) s = Mem_UpdateGauge n v s"
| "mem_perform (AddCounter n d) s = Mem_UpdateCounter n d s"

lemma mem_abs_simps [simp]: "g_of (mem_abs s) = gauges s" "c_of (mem_abs s) = counters s"
  by (simp_all add: mem_abs_def)

lemma mem_abs_inject: "mem_abs s = mem_abs t \<longleftrightarrow> s = t"
  by (cases s; cases t) (simp add: mem_abs_def)

lemma mem_abs_perform [simp]: "mem_abs (mem_perform x s) = apply_op x (mem_abs s)"
  by (cases x) (simp_all add: mem_abs_def Mem_UpdateGauge_def Mem_UpdateCounter_def)

lemma mem_batch_Cons:
  "mem_batch_loop (m # ms) s = (case op_of m of
     Some x \<Rightarrow> mem_batch_loop ms (mem_perform x s)
   | None \<Rightarrow> (fst (mem_batch_loop [m] s), s))"
  by (auto simp: op_of_def Gauge_def Counter_def Mem_UpdateGauge_def Mem_UpdateCounter_def
      split: option.splits)

lemma mem_batch_bad: "\<not> wf_metric m \<Longrightarrow> fst (mem_batch_loop [m] s) \<noteq> None"
  by (auto simp: wf_metric_def Gauge_def Counter_def split: option.splits)

lemma mem_batch_append:
  assumes "\<forall>m \<in> set ms. wf_metric m"
  shows "mem_batch_loop (ms @ ns) s = mem_batch_loop ns (fold mem_perform (ops_of ms) s)"
  using assms
proof (induction ms arbitrary: s)
  case (Cons m ms)
  then obtain x where "op_of m = Some x" by (auto simp: wf_metric_op)
  with Cons show ?case by (simp add: mem_batch_Cons del: mem_batch_loop.simps)
qed simp

lemma mem_abs_run [simp]: "mem_abs (fold mem_perform xs s) = apply_ops xs (mem_abs s)"
  by (induction xs arbitrary: s) auto

lemma Mem_UpdateBatch_wf:
  "\<forall>m \<in> set ms. wf_metric m \<Longrightarrow> Mem_UpdateBatch ms s = (None, fold mem_perform (ops_of ms) s)"
  using mem_batch_append [of ms "[]" s] by (auto simp: Mem_UpdateBatch_def)

interpretation mem: metric_store mem_perform "\<lambda>n s. (Mem_GetGauge n s, s)" "\<lambda>n s. (Mem_GetCounter n s, s)"
  Mem_UpdateBatch mem_abs "\<lambda>_. True" "\<lambda>_ _. True"
  by unfold_locales
    (auto simp: Mem_GetGauge_def Mem_GetCounter_def Mem_UpdateBatch_wf split: option.splits)

section \<open>Save and load\<close>

lemma Mem_SaveToFile_ok:
  "fst (Mem_SaveToFile L f s fs) = None \<longleftrightarrow> create_error fs f = None
    \<and> EncodeDump L \<lparr>Gauges = gauges s, Counters = counters s\<rparr> \<noteq> None \<and> write_error fs f = None"
  by (auto simp: Mem_SaveToFile_def os_create_def file_write_def Let_def split: option.splits prod.splits)

lemma Mem_SaveToFile_files:
  assumes "fst (Mem_SaveToFile L f s fs) = None"
  shows "files (snd (Mem_SaveToFile L f s fs))
    = (files fs)(f := EncodeDump L \<lparr>Gauges = gauges s, Counters = counters s\<rparr>)"
  using assms
  by (auto simp: Mem_SaveToFile_def os_create_def file_write_def Let_def split: option.splits prod.splits)

lemma Mem_SaveToFile_frame [simp]:
  "open_error (snd (Mem_SaveToFile L f s fs)) = open_error fs"
  "create_error (snd (Mem_SaveToFile L f s fs)) = create_error fs"
  "write_error (snd (Mem_SaveToFile L f s fs)) = write_error fs"
  "g \<noteq> f \<Longrightarrow> files (snd (Mem_SaveToFile L f s fs)) g = files fs g"
  by (auto simp: Mem_SaveToFile_def os_create_def file_write_def Let_def split: option.splits prod.splits)

text \<open>The documented law of the JSON codec on dumps: what was encoded decodes to itself.\<close>

definition dump_codec :: "golib \<Rightarrow> bool" where
  "dump_codec L \<longleftrightarrow> (\<forall>d b. EncodeDump L d = Some b \<longrightarrow> DecodeDump L b = Some d)"

lemma sample_dump_codec: "dump_codec sample_lib"
  by (simp add: dump_codec_def sample_lib_def)

definition disk :: "(string \<rightharpoonup> bytes) \<Rightarrow> filesystem" where
  "disk m = \<lparr>files = m, open_error = (\<lambda>_. None), create_error = (\<lambda>_. None), write_error = (\<lambda>_. None)\<rparr>"

lemma Mem_save_load:
  assumes "dump_codec L" and "fst (Mem_SaveToFile L f s fs) = None" and "open_error fs f = None"
  shows "Mem_LoadFromFile L f (snd (Mem_SaveToFile L f s fs)) t = (None, s)"
  using assms Mem_SaveToFile_ok [of L f s fs]
  by (auto simp: Mem_LoadFromFile_def os_open_def Mem_SaveToFile_files dump_codec_def)

lemma Mem_load_error:
  "fst (Mem_LoadFromFile L f fs s) \<noteq> None \<Longrightarrow> snd (Mem_LoadFromFile L f fs s) = s"
  by (auto simp: Mem_LoadFromFile_def split: sum.splits option.splits)

lemma Mem_save_unencodable:
  assumes "EncodeDump L \<lparr>Gauges = gauges s, Counters = counters s\<rparr> = None" and "create_error fs f = None"
  shows "fst (Mem_SaveToFile L f s fs) \<noteq> None \<and> files (snd (Mem_SaveToFile L f s fs)) f = Some []"
  using assms by (simp add: Mem_SaveToFile_def os_create_def Let_def)

section \<open>Properties\<close>

text \<open>
  C12: UpdateBatch on well-formed metrics succeeds and leaves exactly the store that the
  corresponding calls of UpdateGauge and UpdateCounter, one by one and in the same order,
  would leave.
\<close>

theorem mem_batch_is_updates:
  assumes "\<forall>m \<in> set ms. wf_metric m"
  shows "Mem_UpdateBatch ms s = (None, fold mem_perform (ops_of ms) s)"
proof -
  have "fst (Mem_UpdateBatch ms s) = None"
    and "mem_abs (snd (Mem_UpdateBatch ms s)) = mem_abs (fold mem_perform (ops_of ms) s)"
    using mem.batch_result [of ms s] mem.batch_as_run [of ms s] assms by simp_all
  then show ?thesis by (metis mem_abs_inject prod.collapse)
qed

theorem mem_batch_is_updates_witness:
  "Mem_UpdateBatch
     [\<lparr>ID = ''a'', MType = ''counter'', Delta = Some 5, Value = None, Hash = []\<rparr>,
      \<lparr>ID = ''a'', MType = ''gauge'', Delta = None, Value = Some 7, Hash = []\<rparr>,
      \<lparr>ID = ''a'', MType = ''counter'', Delta = Some (- 2), Value = None, Hash = []\<rparr>] NewMemStorage
   = (None, \<lparr>gauges = [''a'' \<mapsto> 7], counters = [''a'' \<mapsto> 3]\<rparr>)"
  by (subst mem_batch_is_updates)
    (simp_all add: wf_metric_def op_of_def Gauge_def Counter_def Mem_UpdateCounter_def
      Mem_UpdateGauge_def NewMemStorage_def)

text \<open>
  UpdateBatch is not atomic: at the first metric that is not well-formed (unknown type,
  or no value for its type) it returns an error, and everything before that metric stays
  applied while nothing after it is.
\<close>

theorem mem_batch_stops_at_bad:
  assumes "\<forall>m \<in> set ms. wf_metric m" and "\<not> wf_metric bad"
  shows "fst (Mem_UpdateBatch (ms @ bad # rest) s) \<noteq> None
    \<and> snd (Mem_UpdateBatch (ms @ bad # rest) s) = fold mem_perform (ops_of ms) s"
proof -
  have "mem_batch_loop (bad # rest) t = (fst (mem_batch_loop [bad] t), t)" for t
    using assms(2) by (simp add: mem_batch_Cons [of bad rest] wf_metric_op del: mem_batch_loop.simps)
  then show ?thesis using mem_batch_bad [OF assms(2)]
    by (simp add: Mem_UpdateBatch_def mem_batch_append [OF assms(1)] del: mem_batch_loop.simps)
qed

theorem mem_batch_stops_at_bad_witness:
  "snd (Mem_UpdateBatch ([\<lparr>ID = ''a'', MType = ''counter'', Delta = Some 5, Value = None, Hash = []\<rparr>]
      @ \<lparr>ID = ''b'', MType = ''gauge'', Delta = None, Value = None, Hash = []\<rparr>
      # [\<lparr>ID = ''c'', MType = ''counter'', Delta = Some 1, Value = None, Hash = []\<rparr>]) NewMemStorage)
   = \<lparr>gauges = Map.empty, counters = [''a'' \<mapsto> 5]\<rparr>"
  by (subst mem_batch_stops_at_bad [THEN conjunct2])
    (simp_all add: wf_metric_def op_of_def Gauge_def Counter_def Mem_UpdateCounter_def NewMemStorage_def)

text \<open>
  C20: whatever sequence of updates a new store has seen, a counter that was touched reads as
  the sum of its deltas, exactly, as long as that sum is in the range of int64 (and modulo
  2 to the 64 in any case); the order of the updates and the gauges play no part.
\<close>

theorem mem_counter_reads_sum:
  assumes "mset xs = mset ys" and "\<exists>x \<in> set xs. touches n x" and "in_int64 (\<Sum>x\<leftarrow>xs. sint (delta_on n x))"
  shows "\<exists>c. Mem_GetCounter n (fold mem_perform ys NewMemStorage) = Inr c
    \<and> sint c = (\<Sum>x\<leftarrow>xs. sint (delta_on n x))"
proof -
  have c0: "go_get (counters NewMemStorage) n = 0" by (simp add: NewMemStorage_def)
  have "fst (Mem_GetCounter n (fold mem_perform ys NewMemStorage), fold mem_perform ys NewMemStorage)
      = Inr (go_get (c_of (mem_abs NewMemStorage)) n + (\<Sum>x\<leftarrow>ys. delta_on n x))"
    using assms(2) set_mset_mset [of xs] assms(1) by (intro mem.read_counter_after) (auto simp flip: set_mset_mset)
  moreover have "(\<Sum>x\<leftarrow>ys. delta_on n x) = (\<Sum>x\<leftarrow>xs. delta_on n x)"
    using assms(1) by (metis mset_map sum_mset_sum_list)
  ultimately have "Mem_GetCounter n (fold mem_perform ys NewMemStorage) = Inr (\<Sum>x\<leftarrow>xs. delta_on n x)"
    by (simp add: c0)
  then show ?thesis
    using sint_sum_list [of "map (delta_on n) xs"] assms(3) by (simp add: comp_def)
qed

theorem mem_counter_reads_sum_witness:
  "\<exists>c. Mem_GetCounter ''PollCount'' (fold mem_perform
      [AddCounter ''PollCount'' (- 2), SetGauge ''PollCount'' 1, AddCounter ''PollCount'' 5] NewMemStorage) = Inr c
    \<and> sint c = (\<Sum>x\<leftarrow>[AddCounter ''PollCount'' 5, AddCounter ''PollCount'' (- 2), SetGauge ''PollCount'' 1].
          sint (delta_on ''PollCount'' x))"
  by (rule mem_counter_reads_sum) (simp_all add: in_int64_def)

text \<open>
  A store that was saved successfully is restored by loading the file, into whatever
  store the load is applied to, given that the JSON codec decodes what it encoded.
\<close>

theorem mem_save_load_roundtrip:
  assumes "dump_codec L" and "fst (Mem_SaveToFile L f s fs) = None" and "open_error fs f = None"
  shows "Mem_LoadFromFile L f (snd (Mem_SaveToFile L f s fs)) t = (None, s)"
  by (rule Mem_save_load [OF assms])

theorem mem_save_load_roundtrip_witness:
  "Mem_LoadFromFile sample_lib ''db.json''
      (snd (Mem_SaveToFile sample_lib ''db.json''
        \<lparr>gauges = [''g'' \<mapsto> f64_one_half], counters = [''c'' \<mapsto> 7]\<rparr> (disk Map.empty))) NewMemStorage
    = (None, \<lparr>gauges = [''g'' \<mapsto> f64_one_half], counters = [''c'' \<mapsto> 7]\<rparr>)"
proof (rule mem_save_load_roundtrip [OF sample_dump_codec])
  show "fst (Mem_SaveToFile sample_lib ''db.json''
      \<lparr>gauges = [''g'' \<mapsto> f64_one_half], counters = [''c'' \<mapsto> 7]\<rparr> (disk Map.empty)) = None"
    unfolding Mem_SaveToFile_ok by (simp add: disk_def sample_lib_def sample_dump_def)
qed (simp add: disk_def)

text \<open>
  SaveToFile destroys the previous file when the state cannot be encoded (JSON has no
  text for an infinite or undefined gauge): the file is truncated before the encoding is
  tried, so an error is returned and an empty file is left in place of the last good one.
\<close>

lemma mem_save_failure_truncates:
  assumes "EncodeDump L \<lparr>Gauges = gauges s, Counters = counters s\<rparr> = None" and "create_error fs f = None"
    and "files fs f = Some old" and "old \<noteq> []"
  shows "fst (Mem_SaveToFile L f s fs) \<noteq> None \<and> files (snd (Mem_SaveToFile L f s fs)) f = Some []
    \<and> files (snd (Mem_SaveToFile L f s fs)) f \<noteq> files fs f"
  using Mem_save_unencodable [OF assms(1,2)] assms(3,4) by simp

lemma mem_save_failure_truncates_witness:
  "files (snd (Mem_SaveToFile sample_lib ''db.json'' \<lparr>gauges = [''g'' \<mapsto> f64_NaN], counters = Map.empty\<rparr>
      (disk [''db.json'' \<mapsto> sample_dump_text]))) ''db.json'' = Some []"
proof (rule mem_save_failure_truncates [where old = sample_dump_text, THEN conjunct2, THEN conjunct1])
  have "[''g'' \<mapsto> f64_NaN] \<noteq> [''g'' \<mapsto> f64_one_half]"
  proof
    assume "[''g'' \<mapsto> f64_NaN] = [''g'' \<mapsto> f64_one_half]"
    from fun_cong [OF this, of "''g''"] show False by (simp add: f64_NaN_def f64_one_half_def)
  qed
  then show "EncodeDump sample_lib \<lparr>Gauges = gauges \<lparr>gauges = [''g'' \<mapsto> f64_NaN], counters = Map.empty\<rparr>,
      Counters = counters \<lparr>gauges = [''g'' \<mapsto> f64_NaN], counters = Map.empty\<rparr>\<rparr> = None"
    by (simp add: sample_lib_def sample_dump_def)
qed (simp_all add: disk_def sample_dump_text_def)

text \<open>
  A failed LoadFromFile changes nothing: on every error path the maps in memory are the
  ones from before the call.
\<close>

theorem mem_load_all_or_nothing:
  assumes "Mem_LoadFromFile L f fs s = (Some e, s')"
  shows "s' = s"
  using Mem_load_error [of L f fs s] assms by simp

theorem mem_load_all_or_nothing_witness:
  "Mem_LoadFromFile sample_lib ''none.json'' (disk Map.empty) (Mem_UpdateCounter ''c'' 3 NewMemStorage)
    = (Some (WrapErr ''failed to open file none.json: '' (not_exist ''none.json'')),
       Mem_UpdateCounter ''c'' 3 NewMemStorage)"
proof -
  have e: "Mem_LoadFromFile sample_lib ''none.json'' (disk Map.empty) s
      = (Some (WrapErr ''failed to open file none.json: '' (not_exist ''none.json'')), snd
          (Mem_LoadFromFile sample_lib ''none.json'' (disk Map.empty) s))" for s
    by (simp add: Mem_LoadFromFile_def os_open_def disk_def)
  show ?thesis using e mem_load_all_or_nothing [OF e] by metis
qed

end
