(* ===== verification/Retry.thy ===== *)
theory Retry
  imports Prelude
begin

text \<open>
  \<^verbatim>\<open>internal/utils/retry.go\<close>: which errors are worth another attempt, and the loop that makes the
  attempts. The function that is retried works on an explicit state: a clock and the world
  it changes. Time is in nanoseconds. A context is known by the instant at which it is done
  and the error it then reports. When the timer and the context become ready at the same
  instant the select statement may take either branch, and a goroutine may be woken late:
  \<open>sched\<close> says what happens in each wait, and every theorem holds for all values of it.

  The package pgerrcode is third-party code: its test for SQLSTATE class 08 is the
  parameter \<open>isc\<close> of every function here.
\<close>

section \<open>RetryConfig\<close>

record RetryConfig =
  MaxAttempts :: int
  Delays :: "int64 list"

definition Second :: int64 where
  "Second = 1000000000"

text \<open>A number of seconds that fits stays positive as a duration.\<close>

lemma seconds_positive:
  assumes "0 < i" and "i \<le> 9223372036"
  shows "0 < sint (word_of_int i * Second)"
proof -
  have "sint (word_of_int (i * 1000000000) :: int64) = i * 1000000000"
    using assms by (subst signed_of_int) (simp add: signed_take_bit_int_eq_self)
  then show ?thesis using assms(1) by (simp add: Second_def)
qed

definition DefaultRetryConfig :: RetryConfig where
  "DefaultRetryConfig = \<lparr>MaxAttempts = 4, Delays = [1 * Second, 3 * Second, 5 * Second]\<rparr>"

section \<open>IsRetriableError\<close>

definition retriable_patterns :: "string list" where
  "retriable_patterns =
    [''connection refused'', ''connection reset'', ''broken pipe'', ''no route to host'',
     ''network is unreachable'', ''timeout'', ''temporary failure'', ''server overloaded'',
     ''too many connections'', ''connection limit exceeded'', ''temporary error'']"

definition IsRetriableError :: "(string \<Rightarrow> bool) \<Rightarrow> goerror option \<Rightarrow> bool" where
  "IsRetriableError isc err = (case err of
     None \<Rightarrow> False
   | Some e \<Rightarrow>
      (case as_net_error e of
         Some timeout \<Rightarrow> timeout
       | None \<Rightarrow>
          (case as_pg_error e of
             Some code \<Rightarrow> isc code
           | None \<Rightarrow>
              if is_net_closed e then True
              else list_ex (\<lambda>p. contains (to_lower p) (to_lower (error_text e))) retriable_patterns)))"

section \<open>Contexts, the clock and the select statement\<close>

type_synonym gocontext = "(nat \<times> goerror) option"

definition Background :: gocontext where
  "Background = None"

definition WithTimeout :: "nat \<Rightarrow> int64 \<Rightarrow> gocontext" where
  "WithTimeout t d = Some (t + nat (sint d), DeadlineExceeded)"

definition ctx_Err :: "gocontext \<Rightarrow> nat \<Rightarrow> goerror option" where
  "ctx_Err ctx t = (case ctx of None \<Rightarrow> None
     | Some (d, e) \<Rightarrow> if d \<le> t then Some e else None)"

record sched =
  tie :: "nat \<Rightarrow> bool"   \<comment> \<open>in wait \<open>n\<close>, a tie is won by the timer\<close>
  lag :: "nat \<Rightarrow> nat"    \<comment> \<open>in wait \<open>n\<close>, how late the goroutine wakes up\<close>

record 'w run =
  now :: nat
  wld :: 'w

text \<open>
  The select over \<^verbatim>\<open>time.After(delay)\<close> and \<^verbatim>\<open>ctx.Done()\<close>: the error of the context if that branch is
  taken, and the time afterwards.
\<close>

definition select_after :: "gocontext \<Rightarrow> sched \<Rightarrow> nat \<Rightarrow> int64 \<Rightarrow> nat \<Rightarrow> goerror option \<times> nat" where
  "select_after ctx sc n delay t =
     (let fire = t + nat (sint delay) in
      case ctx of
        None \<Rightarrow> (None, fire + lag sc n)
      | Some (d, e) \<Rightarrow>
          (let d' = max d t in
           if fire < d' \<or> fire = d' \<and> tie sc n then (None, fire + lag sc n)
           else (Some e, d' + lag sc n)))"

section \<open>Retry and RetryWithBackoff\<close>

datatype 'a outcome = Returned 'a | Panicked string

type_synonym 'w action = "'w run \<Rightarrow> goerror option \<times> 'w run"

definition max_attempts_error :: "int \<Rightarrow> goerror \<Rightarrow> goerror" where
  "max_attempts_error n e = WrapErr (''max attempts reached ('' @ dec_int n @ ''), last error: '') e"

function retry_loop :: "(string \<Rightarrow> bool) \<Rightarrow> gocontext \<Rightarrow> RetryConfig \<Rightarrow> sched \<Rightarrow> 'w action \<Rightarrow> nat
    \<Rightarrow> goerror option \<Rightarrow> 'w run \<Rightarrow> goerror option outcome \<times> 'w run" where
  "retry_loop isc ctx cfg sc fn attempt lastErr s =
     (if int attempt < MaxAttempts cfg then
        (case ctx_Err ctx (now s) of
           Some e \<Rightarrow> (Returned (Some (WrapErr ''context cancelled: '' e)), s)
         | None \<Rightarrow>
            (case fn s of
               (None, s1) \<Rightarrow> (Returned None, s1)
             | (Some err, s1) \<Rightarrow>
                 if \<not> IsRetriableError isc (Some err)
                   then (Returned (Some (WrapErr ''non-retriable error: '' err)), s1)
                 else if int attempt = MaxAttempts cfg - 1
                   then (Returned (Some (max_attempts_error (MaxAttempts cfg) err)), s1)
                 else if length (Delays cfg) \<le> attempt
                   then (Panicked ''index out of range'', s1)
                 else
                   (case select_after ctx sc attempt (Delays cfg ! attempt) (now s1) of
                      (None, t) \<Rightarrow> retry_loop isc ctx cfg sc fn (Suc attempt) (Some err) (s1\<lparr>now := t\<rparr>)
                    | (Some e, t) \<Rightarrow>
                        (Returned (Some (WrapErr ''context cancelled during retry delay: '' e)),
                         s1\<lparr>now := t\<rparr>))))
      else (Returned lastErr, s))"
  by pat_completeness auto
termination
  by (relation "measure (\<lambda>(isc, ctx, cfg, sc, fn, attempt, _). nat (MaxAttempts cfg - int attempt))") auto

declare retry_loop.simps [simp del]

definition Retry :: "(string \<Rightarrow> bool) \<Rightarrow> gocontext \<Rightarrow> RetryConfig \<Rightarrow> sched \<Rightarrow> 'w action \<Rightarrow> 'w run
    \<Rightarrow> goerror option outcome \<times> 'w run" where
  "Retry isc ctx cfg sc fn s = retry_loop isc ctx cfg sc fn 0 None s"

definition backoff_delays :: "int \<Rightarrow> int64 \<Rightarrow> int64 list" where
  "backoff_delays maxAttempts baseDelay = map (\<lambda>i. baseDelay * push_bit i 1) [0..<nat (maxAttempts - 1)]"

definition RetryWithBackoff :: "(string \<Rightarrow> bool) \<Rightarrow> gocontext \<Rightarrow> sched \<Rightarrow> int \<Rightarrow> int64 \<Rightarrow> 'w action
    \<Rightarrow> 'w run \<Rightarrow> goerror option outcome \<times> 'w run" where
  "RetryWithBackoff isc ctx sc maxAttempts baseDelay fn s =
     (if maxAttempts - 1 < 0 then (Panicked ''makeslice: len out of range'', s)
      else Retry isc ctx \<lparr>MaxAttempts = maxAttempts, Delays = backoff_delays maxAttempts baseDelay\<rparr> sc fn s)"

section \<open>What is retriable\<close>

lemma IsRetriableError_None [simp]: "\<not> IsRetriableError isc None"
  by (simp add: IsRetriableError_def)

lemma retriable_net_error: "as_net_error e = Some t \<Longrightarrow> IsRetriableError isc (Some e) \<longleftrightarrow> t"
  by (simp add: IsRetriableError_def)

lemma retriable_pg_error:
  "as_net_error e = None \<Longrightarrow> as_pg_error e = Some c \<Longrightarrow> IsRetriableError isc (Some e) \<longleftrightarrow> isc c"
  by (simp add: IsRetriableError_def)

lemma retriable_text:
  assumes "as_net_error e = None" and "as_pg_error e = None"
  shows "IsRetriableError isc (Some e) \<longleftrightarrow>
    (\<exists>p \<in> set retriable_patterns. contains p (to_lower (error_text e)))"
proof -
  have "\<not> is_net_closed e" using assms(1) net_closed_is_net_error [of e] by auto
  moreover have "to_lower p = p" if "p \<in> set retriable_patterns" for p
    using that by (auto simp: retriable_patterns_def lower_char_def)
  ultimately show ?thesis using assms by (auto simp: IsRetriableError_def list_ex_iff)
qed

lemma retriable_plain_text:
  "p \<in> set retriable_patterns \<Longrightarrow> contains p (to_lower s) \<Longrightarrow> IsRetriableError isc (Some (TextErr s))"
  by (subst retriable_text) auto

lemma to_lower_ascii_Cons:
  assumes "(of_char a :: nat) < 128"
  shows "to_lower (a # s) = lower_char a # to_lower s"
proof (cases s)
  case (Cons b r)
  then show ?thesis using assms by (cases r) auto
qed simp

lemma to_lower_ascii_append:
  "(\<And>a. a \<in> set p \<Longrightarrow> (of_char a :: nat) < 128) \<Longrightarrow> to_lower (p @ s) = map lower_char p @ to_lower s"
  by (induction p) (auto simp: to_lower_ascii_Cons)

text \<open>Wrapping an error with an ASCII prefix does not make a retriable error final.\<close>

lemma retriable_wrap:
  assumes "IsRetriableError isc (Some e)" and "\<And>a. a \<in> set p \<Longrightarrow> (of_char a :: nat) < 128"
  shows "IsRetriableError isc (Some (WrapErr p e))"
  using assms
  by (auto simp: IsRetriableError_def list_ex_iff to_lower_ascii_append intro: contains_append_left
      split: option.splits if_splits)

section \<open>The attempts of a run\<close>

text \<open>
  \<open>retry_fails a s b s'\<close>: from attempt \<open>a\<close> in state \<open>s\<close> the loop makes failed attempts that are
  all worth repeating, waits after each, and reaches attempt \<open>b\<close> in state \<open>s'\<close>.
\<close>

inductive retry_fails :: "(string \<Rightarrow> bool) \<Rightarrow> gocontext \<Rightarrow> RetryConfig \<Rightarrow> sched \<Rightarrow> 'w action
    \<Rightarrow> nat \<Rightarrow> 'w run \<Rightarrow> nat \<Rightarrow> 'w run \<Rightarrow> bool"
  for isc ctx cfg sc fn where
  here: "retry_fails isc ctx cfg sc fn a s a s"
| again: "\<lbrakk>int a + 1 < MaxAttempts cfg; ctx_Err ctx (now s) = None; fn s = (Some err, s1);
    IsRetriableError isc (Some err); a < length (Delays cfg);
    select_after ctx sc a (Delays cfg ! a) (now s1) = (None, t);
    retry_fails isc ctx cfg sc fn (Suc a) (s1\<lparr>now := t\<rparr>) b s'\<rbrakk>
    \<Longrightarrow> retry_fails isc ctx cfg sc fn a s b s'"

text \<open>How a run ends at attempt \<open>a\<close> in state \<open>s\<close>: one rule per return statement and panic.\<close>

inductive retry_stop :: "(string \<Rightarrow> bool) \<Rightarrow> gocontext \<Rightarrow> RetryConfig \<Rightarrow> sched \<Rightarrow> 'w action
    \<Rightarrow> nat \<Rightarrow> 'w run \<Rightarrow> goerror option outcome \<Rightarrow> 'w run \<Rightarrow> bool"
  for isc ctx cfg sc fn a s where
  cancelled: "ctx_Err ctx (now s) = Some e
    \<Longrightarrow> retry_stop isc ctx cfg sc fn a s (Returned (Some (WrapErr ''context cancelled: '' e))) s"
| success: "ctx_Err ctx (now s) = None \<Longrightarrow> fn s = (None, s1)
    \<Longrightarrow> retry_stop isc ctx cfg sc fn a s (Returned None) s1"
| final: "\<lbrakk>ctx_Err ctx (now s) = None; fn s = (Some err, s1); \<not> IsRetriableError isc (Some err)\<rbrakk>
    \<Longrightarrow> retry_stop isc ctx cfg sc fn a s (Returned (Some (WrapErr ''non-retriable error: '' err))) s1"
| exhausted: "\<lbrakk>ctx_Err ctx (now s) = None; fn s = (Some err, s1); IsRetriableError isc (Some err);
      int a = MaxAttempts cfg - 1\<rbrakk>
    \<Longrightarrow> retry_stop isc ctx cfg sc fn a s (Returned (Some (max_attempts_error (MaxAttempts cfg) err))) s1"
| panic: "\<lbrakk>ctx_Err ctx (now s) = None; fn s = (Some err, s1); IsRetriableError isc (Some err);
      int a + 1 < MaxAttempts cfg; length (Delays cfg) \<le> a\<rbrakk>
    \<Longrightarrow> retry_stop isc ctx cfg sc fn a s (Panicked ''index out of range'') s1"
| interrupted: "\<lbrakk>ctx_Err ctx (now s) = None; fn s = (Some err, s1); IsRetriableError isc (Some err);
      int a + 1 < MaxAttempts cfg; a < length (Delays cfg);
      select_after ctx sc a (Delays cfg ! a) (now s1) = (Some e, t)\<rbrakk>
    \<Longrightarrow> retry_stop isc ctx cfg sc fn a s
          (Returned (Some (WrapErr ''context cancelled during retry delay: '' e))) (s1\<lparr>now := t\<rparr>)"

inductive_cases retry_stop_NoneE: "retry_stop isc ctx cfg sc fn a s (Returned None) s'"
inductive_cases retry_stop_PanicE: "retry_stop isc ctx cfg sc fn a s (Panicked m) s'"

text \<open>The loop is exactly: repeat while it is worth it, then stop by one of the rules.\<close>

lemma retry_loop_run:
  assumes "retry_loop isc ctx cfg sc fn a le s = (r, s')" and "int a < MaxAttempts cfg"
  shows "\<exists>b sb. retry_fails isc ctx cfg sc fn a s b sb \<and> int b < MaxAttempts cfg
    \<and> retry_stop isc ctx cfg sc fn b sb r s'"
  using assms
proof (induction isc ctx cfg sc fn a le s rule: retry_loop.induct)
  case (1 isc ctx cfg sc fn a le s)
  note step = "1.prems"(1) [unfolded retry_loop.simps [of isc ctx cfg sc fn a le s]]
  show ?case
  proof (cases "ctx_Err ctx (now s) = None \<and> (\<exists>err s1 t. fn s = (Some err, s1)
      \<and> IsRetriableError isc (Some err) \<and> int a + 1 < MaxAttempts cfg \<and> a < length (Delays cfg)
      \<and> select_after ctx sc a (Delays cfg ! a) (now s1) = (None, t))")
    case True
    then obtain err s1 t where c: "ctx_Err ctx (now s) = None" "fn s = (Some err, s1)"
      "IsRetriableError isc (Some err)" "int a + 1 < MaxAttempts cfg" "a < length (Delays cfg)"
      "select_after ctx sc a (Delays cfg ! a) (now s1) = (None, t)" by blast
    then have "retry_loop isc ctx cfg sc fn (Suc a) (Some err) (s1\<lparr>now := t\<rparr>) = (r, s')"
      using step by auto
    then obtain b sb where b: "retry_fails isc ctx cfg sc fn (Suc a) (s1\<lparr>now := t\<rparr>) b sb"
      "int b < MaxAttempts cfg" "retry_stop isc ctx cfg sc fn b sb r s'"
      using "1.IH" [of "Some err" s1 err None t] "1.prems"(2) c by auto
    then show ?thesis using retry_fails.again [of a cfg ctx s fn err s1 isc sc t b sb] c by blast
  next
    case False
    then have "retry_stop isc ctx cfg sc fn a s r s'"
      using step "1.prems"(2)
      by (auto split: option.splits prod.splits if_splits intro: retry_stop.intros)
    then show ?thesis using "1.prems"(2) retry_fails.here [of isc ctx cfg sc fn a s] by blast
  qed
qed

lemma retry_stop_loop:
  assumes "retry_stop isc ctx cfg sc fn a s r s'" and "int a < MaxAttempts cfg"
  shows "retry_loop isc ctx cfg sc fn a le s = (r, s')"
  using assms
  by (induction rule: retry_stop.induct)
    (auto simp: retry_loop.simps [of isc ctx cfg sc fn a le s])

lemma retry_fails_loop:
  assumes "retry_fails isc ctx cfg sc fn a s b sb" and "retry_stop isc ctx cfg sc fn b sb r s'"
    and "int b < MaxAttempts cfg"
  shows "retry_loop isc ctx cfg sc fn a le s = (r, s')"
  using assms
proof (induction arbitrary: le rule: retry_fails.induct)
  case (here a s)
  then show ?case by (simp add: retry_stop_loop)
next
  case (again a s err s1 t b sb)
  then show ?case by (simp add: retry_loop.simps [of isc ctx cfg sc fn a le s])
qed

lemma Retry_iff:
  assumes "0 < MaxAttempts cfg"
  shows "Retry isc ctx cfg sc fn s = (r, s') \<longleftrightarrow>
    (\<exists>b sb. retry_fails isc ctx cfg sc fn 0 s b sb \<and> int b < MaxAttempts cfg
      \<and> retry_stop isc ctx cfg sc fn b sb r s')"
  using assms by (auto simp: Retry_def dest: retry_loop_run intro: retry_fails_loop)

lemma Retry_no_attempts: "MaxAttempts cfg \<le> 0 \<Longrightarrow> Retry isc ctx cfg sc fn s = (Returned None, s)"
  by (simp add: Retry_def retry_loop.simps)

text \<open>Rules for clients: an invariant of the action holds after the run; success comes from a call.\<close>

lemma retry_fails_inv:
  assumes "retry_fails isc ctx cfg sc fn a s b s'" and "I s"
    and "\<And>s err s1 t. I s \<Longrightarrow> fn s = (Some err, s1) \<Longrightarrow> IsRetriableError isc (Some err) \<Longrightarrow> I (s1\<lparr>now := t\<rparr>)"
  shows "I s'"
  using assms(1,2) by (induction rule: retry_fails.induct) (auto intro: assms(3))

lemma Retry_success:
  assumes "Retry isc ctx cfg sc fn s = (Returned None, s')" and "0 < MaxAttempts cfg" and "I s"
    and "\<And>s err s1 t. I s \<Longrightarrow> fn s = (Some err, s1) \<Longrightarrow> IsRetriableError isc (Some err) \<Longrightarrow> I (s1\<lparr>now := t\<rparr>)"
  shows "\<exists>u. I u \<and> fn u = (None, s')"
proof -
  obtain b u where fails: "retry_fails isc ctx cfg sc fn 0 s b u"
    and stop: "retry_stop isc ctx cfg sc fn b u (Returned None) s'"
    using assms(1) Retry_iff [OF assms(2)] by blast
  have "I u" by (rule retry_fails_inv [where I = I, OF fails assms(3)]) (rule assms(4))
  with stop show ?thesis by (blast elim: retry_stop_NoneE)
qed

lemma Retry_inv:
  assumes "I s" and "\<And>s r s1. I s \<Longrightarrow> fn s = (r, s1) \<Longrightarrow> I s1" and "\<And>s t. I s \<Longrightarrow> I (s\<lparr>now := t\<rparr>)"
  shows "I (snd (Retry isc ctx cfg sc fn s))"
proof (cases "0 < MaxAttempts cfg")
  case True
  obtain r s' where eq: "Retry isc ctx cfg sc fn s = (r, s')" by force
  then obtain b u where fails: "retry_fails isc ctx cfg sc fn 0 s b u"
    and stop: "retry_stop isc ctx cfg sc fn b u r s'" using Retry_iff [OF True] by blast
  have "I u" by (rule retry_fails_inv [where I = I, OF fails assms(1)]) (rule assms(3) [OF assms(2)])
  with stop have "I s'" by cases (auto intro: assms(2,3))
  with eq show ?thesis by simp
next
  case False
  with assms(1) show ?thesis by (simp add: Retry_no_attempts)
qed

lemma Retry_first_success:
  "ctx_Err ctx (now s) = None \<Longrightarrow> fn s = (None, s') \<Longrightarrow> 0 < MaxAttempts cfg
    \<Longrightarrow> Retry isc ctx cfg sc fn s = (Returned None, s')"
  by (simp add: Retry_def retry_loop.simps)

lemma Retry_final_error:
  "ctx_Err ctx (now s) = None \<Longrightarrow> fn s = (Some e, s') \<Longrightarrow> \<not> IsRetriableError isc (Some e)
    \<Longrightarrow> 0 < MaxAttempts cfg
    \<Longrightarrow> Retry isc ctx cfg sc fn s = (Returned (Some (WrapErr ''non-retriable error: '' e)), s')"
  by (simp add: Retry_def retry_loop.simps)

lemma Retry_done_context:
  "ctx_Err ctx (now s) = Some e \<Longrightarrow> 0 < MaxAttempts cfg
    \<Longrightarrow> Retry isc ctx cfg sc fn s = (Returned (Some (WrapErr ''context cancelled: '' e)), s)"
  by (simp add: Retry_def retry_loop.simps)

section \<open>Bounds and absence of panics\<close>

lemma retry_fails_bound: "retry_fails isc ctx cfg sc fn a s b s' \<Longrightarrow> int a < MaxAttempts cfg \<Longrightarrow> int b < MaxAttempts cfg"
  by (induction rule: retry_fails.induct) auto

lemma retry_fails_count:
  assumes "retry_fails isc ctx cfg sc fn a s b s'" and "\<And>s. cnt (wld (snd (fn s))) = cnt (wld s) + (1 :: nat)"
  shows "cnt (wld s') + a = cnt (wld s) + b"
  using assms(1)
proof (induction rule: retry_fails.induct)
  case (again a s err s1 t b s')
  then show ?case using assms(2) [of s] by simp
qed simp

lemma retry_stop_count:
  assumes "retry_stop isc ctx cfg sc fn a s r s'" and "\<And>s. cnt (wld (snd (fn s))) = cnt (wld s) + (1 :: nat)"
  shows "cnt (wld s') \<le> cnt (wld s) + 1"
  using assms(1)
proof (induction rule: retry_stop.induct)
  case (cancelled e)
  then show ?case by simp
qed (use assms(2) [of s] in auto)

lemma Retry_count:
  assumes "\<And>s. cnt (wld (snd (fn s))) = cnt (wld s) + (1 :: nat)"
  shows "cnt (wld (snd (Retry isc ctx cfg sc fn s))) \<le> cnt (wld s) + nat (MaxAttempts cfg)"
proof (cases "0 < MaxAttempts cfg")
  case True
  obtain r s' where eq: "Retry isc ctx cfg sc fn s = (r, s')" by force
  then obtain b sb where b: "retry_fails isc ctx cfg sc fn 0 s b sb" "int b < MaxAttempts cfg"
    "retry_stop isc ctx cfg sc fn b sb r s'" using Retry_iff [OF True] by blast
  have "cnt (wld s') \<le> cnt (wld s) + b + 1"
    using retry_fails_count [where cnt = cnt, OF b(1) assms] retry_stop_count [where cnt = cnt, OF b(3) assms] by simp
  with b(2) eq show ?thesis by simp
next
  case False
  then show ?thesis by (simp add: Retry_no_attempts)
qed

lemma Retry_no_panic:
  assumes "MaxAttempts cfg - 1 \<le> int (length (Delays cfg))"
  shows "fst (Retry isc ctx cfg sc fn s) \<noteq> Panicked m"
proof (cases "0 < MaxAttempts cfg")
  case True
  obtain r s' where eq: "Retry isc ctx cfg sc fn s = (r, s')" by force
  then obtain b sb where "int b < MaxAttempts cfg" and stop: "retry_stop isc ctx cfg sc fn b sb r s'"
    using Retry_iff [OF True] by blast
  have "r \<noteq> Panicked m"
  proof
    assume "r = Panicked m"
    with stop assms show False by (auto elim!: retry_stop_PanicE)
  qed
  with eq show ?thesis by simp
next
  case False
  then show ?thesis by (simp add: Retry_no_attempts)
qed

lemma length_backoff_delays [simp]: "length (backoff_delays n d) = nat (n - 1)"
  by (simp add: backoff_delays_def)

lemma retry_fails_log:
  assumes "retry_fails isc (Some (d, e)) cfg sc fn a s b s'"
    and "\<And>s. log (wld (snd (fn s))) = now s # log (wld s)"
    and "\<forall>t \<in> set (log (wld s)). t < d"
  shows "\<forall>t \<in> set (log (wld s')). t < d"
  using assms(1,3)
proof (induction rule: retry_fails.induct)
  case (again a s err s1 t b s')
  then show ?case using assms(2) [of s] by (simp add: ctx_Err_def split: if_splits)
qed simp

lemma retry_stop_log:
  assumes "retry_stop isc (Some (d, e)) cfg sc fn a s r s'"
    and "\<And>s. log (wld (snd (fn s))) = now s # log (wld s)"
    and "\<forall>t \<in> set (log (wld s)). t < d"
  shows "\<forall>t \<in> set (log (wld s')). t < d"
  using assms(1,3)
  by (induction rule: retry_stop.induct) (use assms(2) [of s] in \<open>auto simp: ctx_Err_def split: if_splits\<close>)

section \<open>A scripted action\<close>

text \<open>
  An action whose results are given in advance: each call takes the next one. What the loop
  does depends on the results of the calls only, so the scripts show all it can do.
\<close>

definition scripted :: "goerror option list action" where
  "scripted s = (case wld s of [] \<Rightarrow> (None, s) | r # rs \<Rightarrow> (r, s\<lparr>wld := rs\<rparr>))"

fun waits :: "RetryConfig \<Rightarrow> sched \<Rightarrow> nat \<Rightarrow> nat \<Rightarrow> nat" where
  "waits cfg sc a 0 = 0"
| "waits cfg sc a (Suc n) = nat (sint (Delays cfg ! a)) + lag sc a + waits cfg sc (Suc a) n"

lemma scripted_fails:
  assumes "\<And>e. e \<in> set errs \<Longrightarrow> IsRetriableError isc (Some e)"
    and "int (a + length errs) < MaxAttempts cfg" and "a + length errs \<le> length (Delays cfg)"
  shows "retry_fails isc Background cfg sc scripted a \<lparr>now = t, wld = map Some errs @ rest\<rparr> (a + length errs)
    \<lparr>now = t + waits cfg sc a (length errs), wld = rest\<rparr>"
  using assms
proof (induction errs arbitrary: a t)
  case Nil
  then show ?case by (simp add: retry_fails.here)
next
  case (Cons e errs)
  let ?t = "t + nat (sint (Delays cfg ! a)) + lag sc a"
  have "retry_fails isc Background cfg sc scripted (Suc a) \<lparr>now = ?t, wld = map Some errs @ rest\<rparr>
      (Suc a + length errs) \<lparr>now = ?t + waits cfg sc (Suc a) (length errs), wld = rest\<rparr>"
    using Cons.prems by (intro Cons.IH) auto
  then have "retry_fails isc Background cfg sc scripted a \<lparr>now = t, wld = map Some (e # errs) @ rest\<rparr>
      (Suc a + length errs) \<lparr>now = ?t + waits cfg sc (Suc a) (length errs), wld = rest\<rparr>"
    using Cons.prems
    by (intro retry_fails.again [of a cfg Background _ scripted e "\<lparr>now = t, wld = map Some errs @ rest\<rparr>"
          isc sc ?t])
      (auto simp: ctx_Err_def Background_def select_after_def scripted_def)
  then show ?case by (simp add: add.assoc)
qed

section \<open>Properties\<close>

text \<open>
  Retry makes at most \<open>MaxAttempts\<close> calls, whatever the calls return, whatever the
  context does and however the waits are scheduled. The number of calls is read off any
  counter that each call increments.
\<close>

theorem retry_call_bound:
  assumes "\<And>s. cnt (wld (snd (fn s))) = cnt (wld s) + (1 :: nat)"
  shows "cnt (wld (snd (Retry isc ctx cfg sc fn s))) \<le> cnt (wld s) + nat (MaxAttempts cfg)"
  by (rule Retry_count [OF assms])

theorem retry_call_bound_witness:
  "id (wld (snd (Retry (prefix ''08'') Background DefaultRetryConfig \<lparr>tie = (\<lambda>_. True), lag = (\<lambda>_. 7)\<rparr>
      (\<lambda>s. (Some (TextErr ''connection refused''), s\<lparr>wld := wld s + 1\<rparr>)) \<lparr>now = 0, wld = 0\<rparr>)))
    \<le> id (wld \<lparr>now = 0, wld = 0\<rparr>) + nat (MaxAttempts DefaultRetryConfig)"
  by (rule retry_call_bound [where cnt = id]) simp

text \<open>
  With the default configuration the loop is total and never panics: for every action,
  context and schedule it returns nil or an error, because there is a delay for each of the
  three waits.
\<close>

lemma retry_default_returns: "\<exists>r s'. Retry isc ctx DefaultRetryConfig sc fn s = (Returned r, s')"
proof -
  have "fst (Retry isc ctx DefaultRetryConfig sc fn s) \<noteq> Panicked m" for m
    by (rule Retry_no_panic) (simp add: DefaultRetryConfig_def)
  then show ?thesis by (metis fst_conv outcome.exhaust surj_pair)
qed

text \<open>
  RetryWithBackoff panics exactly when it is asked for no attempt at all (a negative
  slice length); otherwise it returns. The delays double from the base delay, with the
  wrap-around of 64-bit arithmetic.
\<close>

lemma backoff_panic_iff:
  "(\<exists>m. fst (RetryWithBackoff isc ctx sc n d fn s) = Panicked m) \<longleftrightarrow> n \<le> 0"
proof -
  have "fst (Retry isc ctx \<lparr>MaxAttempts = n, Delays = backoff_delays n d\<rparr> sc fn s) \<noteq> Panicked m" for m
    by (rule Retry_no_panic) simp
  then show ?thesis by (simp add: RetryWithBackoff_def)
qed

text \<open>
  C32: an action that fails a few times with retriable errors and then succeeds is called
  until it succeeds, and no further: Retry returns nil, the results after the first success
  are not consumed, and the time spent is the sum of the configured delays and wake-up lags.
\<close>

theorem retry_until_success:
  assumes "\<And>e. e \<in> set errs \<Longrightarrow> IsRetriableError isc (Some e)"
    and "int (length errs) < MaxAttempts cfg" and "length errs \<le> length (Delays cfg)"
  shows "Retry isc Background cfg sc scripted \<lparr>now = t, wld = map Some errs @ None # rest\<rparr>
    = (Returned None, \<lparr>now = t + waits cfg sc 0 (length errs), wld = rest\<rparr>)"
proof -
  let ?s = "\<lparr>now = t + waits cfg sc 0 (length errs), wld = None # rest\<rparr>"
  have "retry_stop isc Background cfg sc scripted (length errs) ?s (Returned None)
      \<lparr>now = t + waits cfg sc 0 (length errs), wld = rest\<rparr>"
    by (rule retry_stop.success) (simp_all add: ctx_Err_def Background_def scripted_def)
  then show ?thesis
    using retry_fails_loop [OF scripted_fails [of errs isc 0 cfg sc t "None # rest"]] assms
    by (simp add: Retry_def)
qed

theorem retry_until_success_witness:
  "Retry (\<lambda>c. False) Background DefaultRetryConfig \<lparr>tie = (\<lambda>_. False), lag = (\<lambda>_. 0)\<rparr> scripted
      \<lparr>now = 0, wld = map Some [TextErr ''broken pipe'', NetErr True ''i/o timeout''] @ None # [None]\<rparr>
    = (Returned None, \<lparr>now = 4000000000, wld = [None]\<rparr>)"
proof -
  have "IsRetriableError (\<lambda>c. False) (Some e)" if "e \<in> set [TextErr ''broken pipe'', NetErr True ''i/o timeout'']" for e
    using that retriable_plain_text [of "''broken pipe''" "''broken pipe''" "\<lambda>c. False"]
    by (auto simp: retriable_net_error retriable_patterns_def lower_char_def)
  note run = retry_until_success [where errs = "[TextErr ''broken pipe'', NetErr True ''i/o timeout'']"
      and cfg = DefaultRetryConfig and sc = "\<lparr>tie = (\<lambda>_. False), lag = (\<lambda>_. 0)\<rparr>"
      and t = 0 and rest = "[None]", OF this]
  show ?thesis using run by (simp add: DefaultRetryConfig_def Second_def)
qed

text \<open>
  An action that keeps failing with retriable errors is called exactly \<open>MaxAttempts\<close>
  times, and the error returned wraps the last of them.
\<close>

theorem retry_exhausts:
  assumes "\<And>e. e \<in> set (errs @ [e']) \<Longrightarrow> IsRetriableError isc (Some e)"
    and "MaxAttempts cfg = int (length errs) + 1" and "length errs \<le> length (Delays cfg)"
  shows "Retry isc Background cfg sc scripted \<lparr>now = t, wld = map Some (errs @ [e']) @ rest\<rparr>
    = (Returned (Some (max_attempts_error (MaxAttempts cfg) e')),
       \<lparr>now = t + waits cfg sc 0 (length errs), wld = rest\<rparr>)"
proof -
  let ?s = "\<lparr>now = t + waits cfg sc 0 (length errs), wld = Some e' # rest\<rparr>"
  have "retry_stop isc Background cfg sc scripted (length errs) ?s
      (Returned (Some (max_attempts_error (MaxAttempts cfg) e')))
      \<lparr>now = t + waits cfg sc 0 (length errs), wld = rest\<rparr>"
    using assms(1) [of e'] assms(2)
    by (intro retry_stop.exhausted) (simp_all add: ctx_Err_def Background_def scripted_def)
  then show ?thesis
    using retry_fails_loop [OF scripted_fails [of errs isc 0 cfg sc t "Some e' # rest"]] assms
    by (simp add: Retry_def)
qed

theorem retry_exhausts_witness:
  "Retry (prefix ''08'') Background DefaultRetryConfig \<lparr>tie = (\<lambda>_. False), lag = (\<lambda>_. 0)\<rparr> scripted
      \<lparr>now = 0, wld = map Some ([PgErr ''08006'' ''gone'', PgErr ''08001'' ''gone'', PgErr ''08006'' ''gone''] @ [PgErr ''08006'' ''last'']) @ [None]\<rparr>
    = (Returned (Some (max_attempts_error 4 (PgErr ''08006'' ''last''))), \<lparr>now = 9000000000, wld = [None]\<rparr>)"
proof -
  have "IsRetriableError (prefix ''08'') (Some e)"
    if "e \<in> set ([PgErr ''08006'' ''gone'', PgErr ''08001'' ''gone'', PgErr ''08006'' ''gone''] @ [PgErr ''08006'' ''last''])" for e
    using that by (auto simp: IsRetriableError_def)
  note run = retry_exhausts [where errs = "[PgErr ''08006'' ''gone'', PgErr ''08001'' ''gone'', PgErr ''08006'' ''gone'']"
      and e' = "PgErr ''08006'' ''last''" and cfg = DefaultRetryConfig and sc = "\<lparr>tie = (\<lambda>_. False), lag = (\<lambda>_. 0)\<rparr>"
      and t = 0 and rest = "[None]", OF this]
  show ?thesis using run by (simp add: DefaultRetryConfig_def Second_def)
qed

text \<open>
  No attempt starts once the context is done. The log records the time of each call;
  every time logged during the run is before the instant at which the context is done.
\<close>

theorem retry_stops_at_deadline:
  assumes "\<And>s. log (wld (snd (fn s))) = now s # log (wld s)" and "list_all (\<lambda>t. t < d) (log (wld s))"
  shows "list_all (\<lambda>t. t < d) (log (wld (snd (Retry isc (Some (d, e)) cfg sc fn s))))"
proof (cases "0 < MaxAttempts cfg")
  case True
  obtain r s' where eq: "Retry isc (Some (d, e)) cfg sc fn s = (r, s')" by force
  then obtain b sb where b: "retry_fails isc (Some (d, e)) cfg sc fn 0 s b sb"
    "retry_stop isc (Some (d, e)) cfg sc fn b sb r s'" using Retry_iff [OF True] by blast
  have "\<forall>t \<in> set (log (wld s')). t < d"
    by (rule retry_stop_log [where log = log, OF b(2) assms(1) retry_fails_log [where log = log, OF b(1) assms [unfolded list_all_iff]]])
  with eq show ?thesis by (simp add: list_all_iff)
next
  case False
  with assms(2) show ?thesis by (simp add: Retry_no_attempts)
qed

theorem retry_stops_at_deadline_witness:
  "list_all (\<lambda>t. t < 2000000000) (id (wld (snd (Retry (\<lambda>c. False) (Some (2000000000, DeadlineExceeded)) DefaultRetryConfig
      \<lparr>tie = (\<lambda>_. True), lag = (\<lambda>_. 5)\<rparr> (\<lambda>s. (Some (TextErr ''timeout''), s\<lparr>wld := now s # wld s\<rparr>))
      \<lparr>now = 0, wld = []\<rparr>))))"
  by (rule retry_stops_at_deadline [where log = id]) simp_all

text \<open>
  An error that implements \<open>net.Error\<close> and is not a timeout is final: the loop makes one
  attempt only, whatever the text of the error. This covers \<open>net.ErrClosed\<close> and a refused or
  reset connection as package net reports it.
\<close>

lemma net_error_not_retried:
  assumes "as_net_error e = Some False" and "fn s = (Some e, s')" and "ctx_Err ctx (now s) = None"
    and "0 < MaxAttempts cfg"
  shows "Retry isc ctx cfg sc fn s = (Returned (Some (WrapErr ''non-retriable error: '' e)), s')"
  using assms(3,2) _ assms(4) by (rule Retry_final_error) (simp add: retriable_net_error [OF assms(1)])

lemma net_error_not_retried_witness:
  "Retry (\<lambda>c. True) Background DefaultRetryConfig \<lparr>tie = (\<lambda>_. True), lag = (\<lambda>_. 0)\<rparr> scripted
      \<lparr>now = 0, wld = [Some (NetErr False ''dial tcp: connection refused''), None]\<rparr>
    = (Returned (Some (WrapErr ''non-retriable error: '' (NetErr False ''dial tcp: connection refused''))),
       \<lparr>now = 0, wld = [None]\<rparr>)"
  by (rule net_error_not_retried)
    (simp_all add: scripted_def Background_def ctx_Err_def DefaultRetryConfig_def)

end
