(* ===== verification/DBStorage.thy ===== *)
theory DBStorage
  imports Storage Retry
begin

text \<open>
  \<^verbatim>\<open>internal/storage/database.go\<close>: the store in PostgreSQL. The table of \<^verbatim>\<open>migrations/\<close> is a list of rows
  with a unique pair of name and type; the SQL statements of the file are functions on it. The
  server and the network are the environment: \<open>calls\<close> lists what happens to the coming calls
  (how long each takes, and whether it is carried out, lost before or lost after it took
  effect, or cut while rows are read), \<open>rejects\<close> the names the server refuses (too long for
  the column, not valid text). Every statement runs under Retry with the default
  configuration, as in the code.
\<close>

section \<open>The table and the environment\<close>

record dbrow =
  row_name :: string
  row_type :: string
  row_value :: "float64 option"
  row_delta :: "int64 option"
  row_created :: nat

datatype fate = Healthy | LostBefore goerror | LostAfter goerror | CutAfter nat goerror

record dbcall =
  took :: nat
  fate_of :: fate

record dbworld =
  connected :: bool              \<comment> \<open>the pool pointer is not nil\<close>
  closed :: bool                 \<comment> \<open>\<^verbatim>\<open>Close\<close> was called\<close>
  table :: "dbrow list"
  calls :: "dbcall list"         \<comment> \<open>the coming calls; healthy and immediate once the list is used up\<close>
  rejects :: "string \<Rightarrow> goerror option"
  class08 :: "string \<Rightarrow> bool"    \<comment> \<open>package pgerrcode\<close>
  sched_at :: "nat \<Rightarrow> sched"
  scan_closes :: bool            \<comment> \<open>the driver ends a result set when a row does not scan\<close>

type_synonym DatabaseStorage = "dbworld run"

definition pool_closed :: goerror where
  "pool_closed = TextErr ''closed pool''"

definition no_rows :: goerror where
  "no_rows = TextErr ''no rows in result set''"

definition scan_null :: goerror where
  "scan_null = TextErr ''cannot scan NULL''"

definition out_of_range :: goerror where
  "out_of_range = PgErr ''22003'' ''bigint out of range''"

section \<open>The SQL statements\<close>

fun upsert :: "string \<Rightarrow> string \<Rightarrow> (dbrow \<Rightarrow> dbrow) \<Rightarrow> dbrow \<Rightarrow> dbrow list \<Rightarrow> dbrow list" where
  "upsert n ty f new [] = [new]"
| "upsert n ty f new (r # rs) =
     (if row_name r = n \<and> row_type r = ty then f r # rs else r # upsert n ty f new rs)"

definition sel :: "string \<Rightarrow> string \<Rightarrow> dbrow list \<Rightarrow> dbrow option" where
  "sel n ty tb = find (\<lambda>r. row_name r = n \<and> row_type r = ty) tb"

text \<open>\<^verbatim>\<open>INSERT ... ON CONFLICT (name, type) DO UPDATE SET value = $2, ...\<close>\<close>

definition sql_gauge :: "(string \<Rightarrow> goerror option) \<Rightarrow> string \<Rightarrow> float64 \<Rightarrow> nat \<Rightarrow> dbrow list \<Rightarrow> goerror + dbrow list" where
  "sql_gauge rej n v t tb = (case rej n of Some e \<Rightarrow> Inl e
     | None \<Rightarrow> Inr (upsert n ''gauge'' (\<lambda>r. r\<lparr>row_value := Some v, row_created := t\<rparr>)
         \<lparr>row_name = n, row_type = ''gauge'', row_value = Some v, row_delta = None, row_created = t\<rparr> tb))"

text \<open>\<^verbatim>\<open>... DO UPDATE SET delta = metrics.delta + $2, ...\<close>; BIGINT addition fails out of range.\<close>

definition sql_counter :: "(string \<Rightarrow> goerror option) \<Rightarrow> string \<Rightarrow> int64 \<Rightarrow> nat \<Rightarrow> dbrow list \<Rightarrow> goerror + dbrow list" where
  "sql_counter rej n d t tb = (case rej n of Some e \<Rightarrow> Inl e
     | None \<Rightarrow>
        (case Option.bind (sel n ''counter'' tb) row_delta of
           Some old \<Rightarrow>
             if in_int64 (sint old + sint d)
             then Inr (upsert n ''counter'' (\<lambda>r. r\<lparr>row_delta := Some (old + d), row_created := t\<rparr>)
               \<lparr>row_name = n, row_type = ''counter'', row_value = None, row_delta = Some d, row_created = t\<rparr> tb)
             else Inl out_of_range
         | None \<Rightarrow>
             Inr (upsert n ''counter'' (\<lambda>r. r\<lparr>row_created := t\<rparr>)
               \<lparr>row_name = n, row_type = ''counter'', row_value = None, row_delta = Some d, row_created = t\<rparr> tb)))"

text \<open>\<^verbatim>\<open>SELECT ... ORDER BY created_at DESC\<close>\<close>

definition order_desc :: "dbrow list \<Rightarrow> dbrow list" where
  "order_desc rs = sort_key (\<lambda>r. - int (row_created r)) rs"

section \<open>One call to the server\<close>

definition next_call :: "dbworld \<Rightarrow> dbcall \<times> dbworld" where
  "next_call w = (case calls w of [] \<Rightarrow> (\<lparr>took = 0, fate_of = Healthy\<rparr>, w)
     | c # cs \<Rightarrow> (c, w\<lparr>calls := cs\<rparr>))"

definition db_exec :: "((string \<Rightarrow> goerror option) \<Rightarrow> nat \<Rightarrow> dbrow list \<Rightarrow> goerror + dbrow list) \<Rightarrow> dbworld action" where
  "db_exec stmt s =
     (if closed (wld s) then (Some pool_closed, s)
      else (case next_call (wld s) of (c, w) \<Rightarrow>
        (let t = now s + took c; res = stmt (rejects w) (now s) (table w) in
         case fate_of c of
           Healthy \<Rightarrow>
             (case res of Inl e \<Rightarrow> (Some e, \<lparr>now = t, wld = w\<rparr>)
              | Inr tb \<Rightarrow> (None, \<lparr>now = t, wld = w\<lparr>table := tb\<rparr>\<rparr>))
         | LostBefore e \<Rightarrow> (Some e, \<lparr>now = t, wld = w\<rparr>)
         | LostAfter e \<Rightarrow>
             (Some e, \<lparr>now = t, wld = (case res of Inl _ \<Rightarrow> w | Inr tb \<Rightarrow> w\<lparr>table := tb\<rparr>)\<rparr>)
         | CutAfter k e \<Rightarrow>
             (Some e, \<lparr>now = t, wld = (case res of Inl _ \<Rightarrow> w | Inr tb \<Rightarrow> w\<lparr>table := tb\<rparr>)\<rparr>))))"

text \<open>A query: an error of the query itself, or rows and the error that ended the reading.\<close>

definition db_query :: "(dbrow list \<Rightarrow> dbrow list) \<Rightarrow> DatabaseStorage
    \<Rightarrow> (goerror + dbrow list \<times> goerror option) \<times> DatabaseStorage" where
  "db_query q s =
     (if closed (wld s) then (Inl pool_closed, s)
      else (case next_call (wld s) of (c, w) \<Rightarrow>
        (let s' = \<lparr>now = now s + took c, wld = w\<rparr>; rows = q (table w) in
         case fate_of c of
           Healthy \<Rightarrow> (Inr (rows, None), s')
         | LostBefore e \<Rightarrow> (Inl e, s')
         | LostAfter e \<Rightarrow> (Inl e, s')
         | CutAfter k e \<Rightarrow> (Inr (take k rows, Some e), s'))))"

section \<open>Updates\<close>

definition db_retry :: "gocontext \<Rightarrow> dbworld action \<Rightarrow> DatabaseStorage \<Rightarrow> goerror option outcome \<times> DatabaseStorage" where
  "db_retry ctx fn s = Retry (class08 (wld s)) ctx DefaultRetryConfig (sched_at (wld s) (now s)) fn s"

text \<open>An error is only logged.\<close>

definition DB_UpdateGauge :: "string \<Rightarrow> float64 \<Rightarrow> DatabaseStorage \<Rightarrow> DatabaseStorage" where
  "DB_UpdateGauge name value s =
     (let ctx = WithTimeout (now s) (10 * Second)
      in snd (db_retry ctx (db_exec (\<lambda>rej. sql_gauge rej name value)) s))"

definition DB_UpdateCounter :: "string \<Rightarrow> int64 \<Rightarrow> DatabaseStorage \<Rightarrow> DatabaseStorage" where
  "DB_UpdateCounter name value s =
     (let ctx = WithTimeout (now s) (10 * Second)
      in snd (db_retry ctx (db_exec (\<lambda>rej. sql_counter rej name value)) s))"

section \<open>Reads\<close>

text \<open>
  \<^verbatim>\<open>QueryRow(...).Scan(&value)\<close>: the scanned variable is part of the world the closure works on.
\<close>

definition query_row :: "(dbrow list \<Rightarrow> dbrow list) \<Rightarrow> (dbrow \<Rightarrow> 'a option) \<Rightarrow> (dbworld \<times> 'a) action" where
  "query_row q col s = (case db_query q \<lparr>now = now s, wld = fst (wld s)\<rparr> of
     (Inl e, s1) \<Rightarrow> (Some e, \<lparr>now = now s1, wld = (wld s1, snd (wld s))\<rparr>)
   | (Inr (rows, end), s1) \<Rightarrow>
      (case rows of
         [] \<Rightarrow> (Some (case end of Some e \<Rightarrow> e | None \<Rightarrow> no_rows), \<lparr>now = now s1, wld = (wld s1, snd (wld s))\<rparr>)
       | r # _ \<Rightarrow>
          (case col r of
             None \<Rightarrow> (Some scan_null, \<lparr>now = now s1, wld = (wld s1, snd (wld s))\<rparr>)
           | Some v \<Rightarrow> (end, \<lparr>now = now s1, wld = (wld s1, v)\<rparr>))))"

definition get_by_query :: "string \<Rightarrow> (dbrow list \<Rightarrow> dbrow list) \<Rightarrow> (dbrow \<Rightarrow> ('a::zero) option) \<Rightarrow> DatabaseStorage
    \<Rightarrow> (goerror + 'a) \<times> DatabaseStorage" where
  "get_by_query msg q col s =
     (let ctx = WithTimeout (now s) (10 * Second) in
      case Retry (class08 (wld s)) ctx DefaultRetryConfig (sched_at (wld s) (now s)) (query_row q col)
             \<lparr>now = now s, wld = (wld s, 0)\<rparr> of
        (Returned (Some e), s1) \<Rightarrow> (Inl (WrapErr msg e), \<lparr>now = now s1, wld = fst (wld s1)\<rparr>)
      | (Returned None, s1) \<Rightarrow> (Inr (snd (wld s1)), \<lparr>now = now s1, wld = fst (wld s1)\<rparr>)
      | (Panicked m, s1) \<Rightarrow> (Inl (TextErr m), \<lparr>now = now s1, wld = fst (wld s1)\<rparr>))"

definition DB_GetGauge :: "string \<Rightarrow> DatabaseStorage \<Rightarrow> (goerror + float64) \<times> DatabaseStorage" where
  "DB_GetGauge name s =
     get_by_query (''failed to get gauge metric '' @ name @ '': '')
       (\<lambda>tb. take 1 (order_desc (filter (\<lambda>r. row_name r = name \<and> row_type r = ''gauge'') tb))) row_value s"

definition DB_GetCounter :: "string \<Rightarrow> DatabaseStorage \<Rightarrow> (goerror + int64) \<times> DatabaseStorage" where
  "DB_GetCounter name s =
     get_by_query (''failed to get counter metric '' @ name @ '': '')
       (\<lambda>tb. take 1 (order_desc (filter (\<lambda>r. row_name r = name \<and> row_type r = ''counter'') tb))) row_delta s"

text \<open>
  The loop over the rows goes on to the next row when one does not scan (if the driver still
  has one), and does not ask why the rows ended.
\<close>

fun collect_rows :: "bool \<Rightarrow> (dbrow \<Rightarrow> 'a option) \<Rightarrow> dbrow list \<Rightarrow> (string \<rightharpoonup> 'a) \<Rightarrow> (string \<rightharpoonup> 'a)" where
  "collect_rows ends col [] m = m"
| "collect_rows ends col (r # rs) m = (case col r of
     None \<Rightarrow> if ends then m else collect_rows ends col rs m
   | Some v \<Rightarrow> collect_rows ends col rs (m(row_name r \<mapsto> v)))"

definition DB_GetAllGauges :: "DatabaseStorage \<Rightarrow> (string \<rightharpoonup> float64) \<times> DatabaseStorage" where
  "DB_GetAllGauges s = (case db_query (\<lambda>tb. order_desc (filter (\<lambda>r. row_type r = ''gauge'') tb)) s of
     (Inl e, s1) \<Rightarrow> (Map.empty, s1)
   | (Inr (rows, _), s1) \<Rightarrow> (collect_rows (scan_closes (wld s1)) row_value rows Map.empty, s1))"

definition DB_GetAllCounters :: "DatabaseStorage \<Rightarrow> (string \<rightharpoonup> int64) \<times> DatabaseStorage" where
  "DB_GetAllCounters s = (case db_query (\<lambda>tb. order_desc (filter (\<lambda>r. row_type r = ''counter'') tb)) s of
     (Inl e, s1) \<Rightarrow> (Map.empty, s1)
   | (Inr (rows, _), s1) \<Rightarrow> (collect_rows (scan_closes (wld s1)) row_delta rows Map.empty, s1))"

section \<open>Batches\<close>

text \<open>
  The statements of a transaction work on a copy of the table, which Commit installs; an error
  return rolls back by dropping the copy. \<open>t0\<close> is the time of the transaction.
\<close>

definition tx_exec :: "((string \<Rightarrow> goerror option) \<Rightarrow> nat \<Rightarrow> dbrow list \<Rightarrow> goerror + dbrow list) \<Rightarrow> nat
    \<Rightarrow> dbrow list \<Rightarrow> DatabaseStorage \<Rightarrow> (goerror + dbrow list) \<times> DatabaseStorage" where
  "tx_exec stmt t0 tb s = (case next_call (wld s) of (c, w) \<Rightarrow>
     (let s' = \<lparr>now = now s + took c, wld = w\<rparr> in
      case fate_of c of
        Healthy \<Rightarrow> (stmt (rejects w) t0 tb, s')
      | LostBefore e \<Rightarrow> (Inl e, s')
      | LostAfter e \<Rightarrow> (Inl e, s')
      | CutAfter k e \<Rightarrow> (Inl e, s')))"

fun db_batch_loop :: "Metrics list \<Rightarrow> nat \<Rightarrow> dbrow list \<Rightarrow> DatabaseStorage
    \<Rightarrow> (goerror + dbrow list) \<times> DatabaseStorage" where
  "db_batch_loop [] t0 tb s = (Inr tb, s)"
| "db_batch_loop (m # ms) t0 tb s =
     (if MType m = ''gauge'' then
        (case Value m of
           None \<Rightarrow> db_batch_loop ms t0 tb s
         | Some v \<Rightarrow>
            (case tx_exec (\<lambda>rej. sql_gauge rej (ID m) v) t0 tb s of
               (Inl e, s1) \<Rightarrow> (Inl (WrapErr (''failed to update gauge metric '' @ ID m @ '': '') e), s1)
             | (Inr tb1, s1) \<Rightarrow> db_batch_loop ms t0 tb1 s1))
      else if MType m = ''counter'' then
        (case Delta m of
           None \<Rightarrow> db_batch_loop ms t0 tb s
         | Some d \<Rightarrow>
            (case tx_exec (\<lambda>rej. sql_counter rej (ID m) d) t0 tb s of
               (Inl e, s1) \<Rightarrow> (Inl (WrapErr (''failed to update counter metric '' @ ID m @ '': '') e), s1)
             | (Inr tb1, s1) \<Rightarrow> db_batch_loop ms t0 tb1 s1))
      else (Inl (TextErr (''unknown metric type: '' @ MType m)), s))"

definition tx_commit :: "dbrow list \<Rightarrow> DatabaseStorage \<Rightarrow> goerror option \<times> DatabaseStorage" where
  "tx_commit tb s = (case next_call (wld s) of (c, w) \<Rightarrow>
     (let t = now s + took c in
      case fate_of c of
        Healthy \<Rightarrow> (None, \<lparr>now = t, wld = w\<lparr>table := tb\<rparr>\<rparr>)
      | LostBefore e \<Rightarrow> (Some e, \<lparr>now = t, wld = w\<rparr>)
      | LostAfter e \<Rightarrow> (Some e, \<lparr>now = t, wld = w\<lparr>table := tb\<rparr>\<rparr>)
      | CutAfter k e \<Rightarrow> (Some e, \<lparr>now = t, wld = w\<lparr>table := tb\<rparr>\<rparr>)))"

definition db_batch_tx :: "Metrics list \<Rightarrow> dbworld action" where
  "db_batch_tx metrics s =
     (if closed (wld s) then (Some (WrapErr ''failed to begin transaction: '' pool_closed), s)
      else (case tx_exec (\<lambda>rej t tb. Inr tb) (now s) (table (wld s)) s of
        (Inl e, s1) \<Rightarrow> (Some (WrapErr ''failed to begin transaction: '' e), s1)
      | (Inr tb, s1) \<Rightarrow>
          (case db_batch_loop metrics (now s1) tb s1 of
             (Inl e, s2) \<Rightarrow> (Some e, s2)
           | (Inr tb2, s2) \<Rightarrow> tx_commit tb2 s2)))"

definition DB_UpdateBatch :: "Metrics list \<Rightarrow> DatabaseStorage \<Rightarrow> goerror option \<times> DatabaseStorage" where
  "DB_UpdateBatch metrics s =
     (if length metrics = 0 then (None, s)
      else (let ctx = WithTimeout (now s) (30 * Second) in
        case db_retry ctx (db_batch_tx metrics) s of
          (Returned r, s1) \<Rightarrow> (r, s1)
        | (Panicked m, s1) \<Rightarrow> (Some (TextErr m), s1)))"

section \<open>The rest of the interface\<close>

definition DB_Ping :: "DatabaseStorage \<Rightarrow> goerror option \<times> DatabaseStorage" where
  "DB_Ping s = db_exec (\<lambda>rej t tb. Inr tb) s"

definition DB_Close :: "DatabaseStorage \<Rightarrow> goerror option \<times> DatabaseStorage" where
  "DB_Close s = (None, s\<lparr>wld := (wld s)\<lparr>closed := True\<rparr>\<rparr>)"

definition DB_SaveToFile :: "string \<Rightarrow> DatabaseStorage \<Rightarrow> goerror option" where
  "DB_SaveToFile filename s = None"

definition DB_LoadFromFile :: "string \<Rightarrow> DatabaseStorage \<Rightarrow> goerror option" where
  "DB_LoadFromFile filename s = None"

definition DB_IsDatabase :: "DatabaseStorage \<Rightarrow> bool" where
  "DB_IsDatabase s = True"

definition DB_IsAvailable :: "DatabaseStorage \<Rightarrow> bool" where
  "DB_IsAvailable s = connected (wld s)"

text \<open>
  \<^verbatim>\<open>GetAllMetrics\<close>: one map for both types, filled by each attempt in turn; the newest row comes
  first and an older one of the same name overwrites it. Left is a gauge, right a counter.
\<close>

fun collect_metrics :: "dbrow list \<Rightarrow> (string \<rightharpoonup> float64 + int64) \<Rightarrow> (string \<rightharpoonup> float64 + int64)" where
  "collect_metrics [] m = m"
| "collect_metrics (r # rs) m = collect_metrics rs
     (if row_type r = ''gauge'' \<and> row_value r \<noteq> None then m(row_name r \<mapsto> Inl (the (row_value r)))
      else if row_type r = ''counter'' \<and> row_delta r \<noteq> None then m(row_name r \<mapsto> Inr (the (row_delta r)))
      else m)"

definition all_metrics_query :: "(dbworld \<times> (string \<rightharpoonup> float64 + int64)) action" where
  "all_metrics_query s = (case db_query order_desc \<lparr>now = now s, wld = fst (wld s)\<rparr> of
     (Inl e, s1) \<Rightarrow> (Some e, \<lparr>now = now s1, wld = (wld s1, snd (wld s))\<rparr>)
   | (Inr (rows, end), s1) \<Rightarrow> (end, \<lparr>now = now s1, wld = (wld s1, collect_metrics rows (snd (wld s)))\<rparr>))"

definition DB_GetAllMetrics :: "DatabaseStorage \<Rightarrow> (string \<rightharpoonup> float64 + int64) \<times> DatabaseStorage" where
  "DB_GetAllMetrics s =
     (let ctx = WithTimeout (now s) (10 * Second) in
      case Retry (class08 (wld s)) ctx DefaultRetryConfig (sched_at (wld s) (now s)) all_metrics_query
             \<lparr>now = now s, wld = (wld s, Map.empty)\<rparr> of
        (r, s1) \<Rightarrow> (snd (wld s1), \<lparr>now = now s1, wld = fst (wld s1)\<rparr>))"

section \<open>The table as an abstract store\<close>

definition tb_abs :: "dbrow list \<Rightarrow> metric_state" where
  "tb_abs tb = \<lparr>g_of = (\<lambda>n. Option.bind (sel n ''gauge'' tb) row_value),
     c_of = (\<lambda>n. Option.bind (sel n ''counter'' tb) row_delta)\<rparr>"

definition row_key :: "dbrow \<Rightarrow> string \<times> string" where
  "row_key r = (row_name r, row_type r)"

definition row_ok :: "dbrow \<Rightarrow> bool" where
  "row_ok r \<longleftrightarrow> (row_type r = ''gauge'' \<longrightarrow> row_value r \<noteq> None) \<and> (row_type r = ''counter'' \<longrightarrow> row_delta r \<noteq> None)"

definition tb_ok :: "dbrow list \<Rightarrow> bool" where
  "tb_ok tb \<longleftrightarrow> distinct (map row_key tb) \<and> list_all row_ok tb"

lemma sel_simps [simp]:
  "sel n ty [] = None"
  "sel n ty (r # rs) = (if row_name r = n \<and> row_type r = ty then Some r else sel n ty rs)"
  by (simp_all add: sel_def)

lemma sel_upsert:
  assumes "row_key new = (n, ty)" and "\<And>r. row_key (f r) = row_key r"
  shows "sel n' ty' (upsert n ty f new tb) = (if n' = n \<and> ty' = ty
    then Some (case sel n ty tb of None \<Rightarrow> new | Some r \<Rightarrow> f r) else sel n' ty' tb)"
proof -
  have "row_name (f r) = row_name r" "row_type (f r) = row_type r" for r
    using assms(2) [of r] by (simp_all add: row_key_def)
  then show ?thesis using assms(1) by (induction tb) (auto simp: row_key_def)
qed

lemma upsert_keys:
  assumes "row_key new = (n, ty)" and "\<And>r. row_key (f r) = row_key r"
  shows "set (map row_key (upsert n ty f new tb)) = insert (n, ty) (set (map row_key tb))"
  using assms by (induction tb) (auto simp: row_key_def)

lemma upsert_distinct:
  assumes "row_key new = (n, ty)" and "\<And>r. row_key (f r) = row_key r" and "distinct (map row_key tb)"
  shows "distinct (map row_key (upsert n ty f new tb))"
  using assms(3)
proof (induction tb)
  case (Cons r rs)
  have "row_key r \<notin> set (map row_key (upsert n ty f new rs))" if "\<not> (row_name r = n \<and> row_type r = ty)"
    using Cons.prems that upsert_keys [OF assms(1,2), of rs] by (auto simp: row_key_def)
  with Cons assms show ?case by auto
qed simp

lemma upsert_rows: "r \<in> set (upsert n ty f new tb) \<Longrightarrow>
    r = new \<or> r \<in> set tb \<or> (\<exists>q \<in> set tb. row_name q = n \<and> row_type q = ty \<and> r = f q)"
  by (induction tb) (auto split: if_splits)

lemma sel_Some: "sel n ty tb = Some r \<Longrightarrow> r \<in> set tb \<and> row_name r = n \<and> row_type r = ty"
  by (induction tb) (auto split: if_splits)

lemma sel_None: "sel n ty tb = None \<longleftrightarrow> (n, ty) \<notin> set (map row_key tb)"
  by (induction tb) (auto simp: row_key_def)

lemma sel_of_row: "distinct (map row_key tb) \<Longrightarrow> r \<in> set tb \<Longrightarrow> sel (row_name r) (row_type r) tb = Some r"
  by (induction tb) (auto simp: row_key_def image_iff)

lemma tb_ok_upsert:
  assumes "tb_ok tb" and "row_key new = (n, ty)" and "\<And>r. row_key (f r) = row_key r"
    and "row_ok new" and "\<And>r. row_ok r \<Longrightarrow> row_type r = ty \<Longrightarrow> row_ok (f r)"
  shows "tb_ok (upsert n ty f new tb)"
proof -
  have "row_ok r" if "r \<in> set (upsert n ty f new tb)" for r
    using upsert_rows [OF that] assms(1,4,5) by (auto simp: tb_ok_def list_all_iff)
  then show ?thesis
    using assms(1) upsert_distinct [OF assms(2,3), of tb] by (simp add: tb_ok_def list_all_iff)
qed

lemma sql_gauge_effect:
  assumes "tb_ok tb" and "sql_gauge rej n v t tb = Inr tb'"
  shows "tb_ok tb' \<and> tb_abs tb' = apply_op (SetGauge n v) (tb_abs tb)"
proof -
  have tb': "tb' = upsert n ''gauge'' (\<lambda>r. r\<lparr>row_value := Some v, row_created := t\<rparr>)
      \<lparr>row_name = n, row_type = ''gauge'', row_value = Some v, row_delta = None, row_created = t\<rparr> tb"
    using assms(2) by (auto simp: sql_gauge_def split: option.splits)
  have "tb_ok tb'"
    unfolding tb' using assms(1) by (rule tb_ok_upsert) (auto simp: row_key_def row_ok_def)
  moreover have "tb_abs tb' = apply_op (SetGauge n v) (tb_abs tb)"
    by (auto simp: tb' tb_abs_def sel_upsert row_key_def split: option.splits)
  ultimately show ?thesis ..
qed

lemma sql_counter_effect:
  assumes "tb_ok tb" and "sql_counter rej n d t tb = Inr tb'"
  shows "tb_ok tb' \<and> tb_abs tb' = apply_op (AddCounter n d) (tb_abs tb)"
proof (cases "Option.bind (sel n ''counter'' tb) row_delta")
  case None
  have sel: "sel n ''counter'' tb = None"
    using None assms(1) sel_Some [of n "''counter''" tb]
    by (cases "sel n ''counter'' tb") (auto simp: tb_ok_def list_all_iff row_ok_def)
  have tb': "tb' = upsert n ''counter'' (\<lambda>r. r\<lparr>row_created := t\<rparr>)
      \<lparr>row_name = n, row_type = ''counter'', row_value = None, row_delta = Some d, row_created = t\<rparr> tb"
    using assms(2) None by (auto simp: sql_counter_def split: option.splits)
  have "tb_ok tb'"
    unfolding tb' using assms(1) by (rule tb_ok_upsert) (auto simp: row_key_def row_ok_def)
  moreover have "tb_abs tb' = apply_op (AddCounter n d) (tb_abs tb)"
    by (auto simp: tb' tb_abs_def sel_upsert row_key_def sel)
  ultimately show ?thesis ..
next
  case (Some old)
  then have tb': "tb' = upsert n ''counter'' (\<lambda>r. r\<lparr>row_delta := Some (old + d), row_created := t\<rparr>)
      \<lparr>row_name = n, row_type = ''counter'', row_value = None, row_delta = Some d, row_created = t\<rparr> tb"
    using assms(2) by (auto simp: sql_counter_def split: option.splits if_splits)
  have "tb_ok tb'"
    unfolding tb' using assms(1) by (rule tb_ok_upsert) (auto simp: row_key_def row_ok_def)
  moreover have "tb_abs tb' = apply_op (AddCounter n d) (tb_abs tb)"
    using Some by (auto simp: tb' tb_abs_def sel_upsert row_key_def bind_eq_Some_conv)
  ultimately show ?thesis ..
qed

section \<open>Statements and transactions under any fate\<close>

fun db_stmt :: "metric_op \<Rightarrow> (string \<Rightarrow> goerror option) \<Rightarrow> nat \<Rightarrow> dbrow list \<Rightarrow> goerror + dbrow list" where
  "db_stmt (SetGauge n v) rej = sql_gauge rej n v"
| "db_stmt (AddCounter n d) rej = sql_counter rej n d"

fun db_perform :: "metric_op \<Rightarrow> DatabaseStorage \<Rightarrow> DatabaseStorage" where
  "db_perform (SetGauge n v) s = DB_UpdateGauge n v s"
| "db_perform (AddCounter n d) s = DB_UpdateCounter n d s"

lemma db_stmt_eta:
  "db_stmt (SetGauge n v) = (\<lambda>rej. sql_gauge rej n v)"
  "db_stmt (AddCounter n d) = (\<lambda>rej. sql_counter rej n d)"
  by (simp_all add: fun_eq_iff)

lemma db_perform_retry:
  "db_perform x s = snd (db_retry (WithTimeout (now s) (10 * Second)) (db_exec (db_stmt x)) s)"
  by (cases x) (simp_all add: DB_UpdateGauge_def DB_UpdateCounter_def Let_def db_stmt_eta)

lemma db_stmt_effect:
  assumes "tb_ok tb" and "db_stmt x rej t tb = Inr tb'"
  shows "tb_ok tb' \<and> tb_abs tb' = apply_op x (tb_abs tb)"
proof (cases x)
  case (SetGauge n v)
  with assms sql_gauge_effect [OF assms(1), of rej n v t tb'] show ?thesis by simp
next
  case (AddCounter n d)
  with assms sql_counter_effect [OF assms(1), of rej n d t tb'] show ?thesis by simp
qed

definition db_abs :: "DatabaseStorage \<Rightarrow> metric_state" where
  "db_abs s = tb_abs (table (wld s))"

text \<open>
  Reliable: every coming call is healthy. Clean: every coming call is healthy or lost before
  the server saw it, so that an error means that nothing happened.
\<close>

definition reliable :: "dbworld \<Rightarrow> bool" where
  "reliable w \<longleftrightarrow> \<not> closed w \<and> tb_ok (table w) \<and> list_all (\<lambda>c. fate_of c = Healthy) (calls w)"

definition clean :: "dbworld \<Rightarrow> bool" where
  "clean w \<longleftrightarrow> tb_ok (table w)
    \<and> list_all (\<lambda>c. case fate_of c of Healthy \<Rightarrow> True | LostBefore e \<Rightarrow> True | _ \<Rightarrow> False) (calls w)"

lemma reliable_clean: "reliable w \<Longrightarrow> clean w"
  by (auto simp: reliable_def clean_def list_all_iff)

lemma next_call_props:
  assumes "next_call w = (c, w')"
  shows "reliable w \<Longrightarrow> fate_of c = Healthy \<and> reliable w'"
    and "clean w \<Longrightarrow> clean w' \<and> (fate_of c = Healthy \<or> (\<exists>e. fate_of c = LostBefore e))"
    and "table w' = table w" "rejects w' = rejects w" "closed w' = closed w"
  using assms by (auto simp: next_call_def reliable_def clean_def split: list.splits fate.splits)

lemma reliable_table: "reliable w \<Longrightarrow> tb_ok tb \<Longrightarrow> reliable (w\<lparr>table := tb\<rparr>)"
  and clean_table: "clean w \<Longrightarrow> tb_ok tb \<Longrightarrow> clean (w\<lparr>table := tb\<rparr>)"
  by (simp_all add: reliable_def clean_def)

lemma reliable_ok [dest]: "reliable w \<Longrightarrow> tb_ok (table w)"
  and clean_ok [dest]: "clean w \<Longrightarrow> tb_ok (table w)"
  by (simp_all add: reliable_def clean_def)

lemma db_exec_reliable:
  assumes "reliable (wld s)"
  shows "reliable (wld (snd (db_exec (db_stmt x) s)))
    \<and> rejects (wld (snd (db_exec (db_stmt x) s))) = rejects (wld s)
    \<and> (case db_stmt x (rejects (wld s)) (now s) (table (wld s)) of
         Inl e \<Rightarrow> fst (db_exec (db_stmt x) s) = Some e
       | Inr tb \<Rightarrow> fst (db_exec (db_stmt x) s) = None \<and> table (wld (snd (db_exec (db_stmt x) s))) = tb)"
proof -
  obtain c w where c: "next_call (wld s) = (c, w)" by force
  note p = next_call_props [OF c]
  have "\<not> closed (wld s)" using assms by (simp add: reliable_def)
  then show ?thesis
    using p assms db_stmt_effect [of "table (wld s)" x "rejects (wld s)" "now s"]
    by (auto simp: db_exec_def c Let_def reliable_table reliable_ok split: sum.splits)
qed

lemma db_exec_clean:
  assumes "clean (wld s)" and "db_exec (db_stmt x) s = (r, s')"
  shows "clean (wld s') \<and> (case r of Some e \<Rightarrow> table (wld s') = table (wld s)
    | None \<Rightarrow> tb_abs (table (wld s')) = apply_op x (tb_abs (table (wld s))))"
proof -
  obtain c w where c: "next_call (wld s) = (c, w)" by force
  note p = next_call_props [OF c]
  show ?thesis
    using p(2-) assms db_stmt_effect [of "table (wld s)" x "rejects (wld s)" "now s"]
    by (auto simp: db_exec_def c Let_def clean_table clean_ok split: sum.splits if_splits)
qed

lemma tx_exec_props:
  assumes "tx_exec stmt t0 tb s = (r, s')"
  shows "table (wld s') = table (wld s)" and "rejects (wld s') = rejects (wld s)"
    and "closed (wld s') = closed (wld s)"
    and "clean (wld s) \<Longrightarrow> clean (wld s')" and "reliable (wld s) \<Longrightarrow> reliable (wld s')"
    and "reliable (wld s) \<Longrightarrow> r = stmt (rejects (wld s)) t0 tb"
    and "r = Inr tb' \<Longrightarrow> stmt (rejects (wld s)) t0 tb = Inr tb'"
proof -
  obtain c w where c: "next_call (wld s) = (c, w)" by force
  note p = next_call_props [OF c]
  show "table (wld s') = table (wld s)" and "rejects (wld s') = rejects (wld s)"
    and "closed (wld s') = closed (wld s)"
    and "clean (wld s) \<Longrightarrow> clean (wld s')" and "reliable (wld s) \<Longrightarrow> reliable (wld s')"
    and "reliable (wld s) \<Longrightarrow> r = stmt (rejects (wld s)) t0 tb"
    and "r = Inr tb' \<Longrightarrow> stmt (rejects (wld s)) t0 tb = Inr tb'"
    using assms p by (auto simp: tx_exec_def c Let_def split: fate.splits)
qed

text \<open>The statement a metric of a batch stands for; nothing at all if it has no value.\<close>

lemma db_batch_step:
  "db_batch_loop (m # ms) t0 tb s = (case op_of m of
     None \<Rightarrow> if MType m = ''gauge'' \<or> MType m = ''counter'' then db_batch_loop ms t0 tb s
       else (Inl (TextErr (''unknown metric type: '' @ MType m)), s)
   | Some x \<Rightarrow> (case tx_exec (db_stmt x) t0 tb s of
       (Inl e, s1) \<Rightarrow> (Inl (WrapErr (''failed to update '' @ MType m @ '' metric '' @ ID m @ '': '') e), s1)
     | (Inr tb1, s1) \<Rightarrow> db_batch_loop ms t0 tb1 s1))"
  by (auto simp: op_of_def Gauge_def Counter_def db_stmt_eta split: option.splits prod.splits sum.splits)

lemma db_batch_frame:
  assumes "db_batch_loop ms t0 tb s = (r, s')"
  shows "table (wld s') = table (wld s)" and "rejects (wld s') = rejects (wld s)"
    and "closed (wld s') = closed (wld s)"
    and "clean (wld s) \<Longrightarrow> clean (wld s')" and "reliable (wld s) \<Longrightarrow> reliable (wld s')"
  using assms
proof (induction ms arbitrary: tb s)
  case (Cons m ms)
  { case 1 with Cons.IH(1) show ?case
      by (auto simp: db_batch_step tx_exec_props(1) simp del: db_batch_loop.simps
          split: option.splits prod.splits sum.splits if_splits) }
  { case 2 with Cons.IH(2) show ?case
      by (auto simp: db_batch_step tx_exec_props(2) simp del: db_batch_loop.simps
          split: option.splits prod.splits sum.splits if_splits) }
  { case 3 with Cons.IH(3) show ?case
      by (auto simp: db_batch_step tx_exec_props(3) simp del: db_batch_loop.simps
          split: option.splits prod.splits sum.splits if_splits) }
  { case 4 with Cons.IH(4) show ?case
      by (auto simp: db_batch_step simp del: db_batch_loop.simps dest!: tx_exec_props(4)
          split: option.splits prod.splits sum.splits if_splits) }
  { case 5 with Cons.IH(5) show ?case
      by (auto simp: db_batch_step simp del: db_batch_loop.simps dest!: tx_exec_props(5)
          split: option.splits prod.splits sum.splits if_splits) }
qed simp_all

lemma db_batch_effect:
  assumes "db_batch_loop ms t0 tb s = (Inr tb', s')" and "tb_ok tb"
  shows "tb_ok tb' \<and> tb_abs tb' = apply_ops (ops_of ms) (tb_abs tb)"
  using assms
proof (induction ms arbitrary: tb s)
  case (Cons m ms)
  show ?case
  proof (cases "op_of m")
    case None
    with Cons show ?thesis by (simp add: db_batch_step del: db_batch_loop.simps split: if_splits)
  next
    case (Some x)
    then obtain tb1 s1 where tx: "tx_exec (db_stmt x) t0 tb s = (Inr tb1, s1)"
      and rest: "db_batch_loop ms t0 tb1 s1 = (Inr tb', s')"
      using Cons.prems(1)
      by (auto simp: db_batch_step simp del: db_batch_loop.simps split: prod.splits sum.splits)
    have "tb_ok tb1 \<and> tb_abs tb1 = apply_op x (tb_abs tb)"
      using db_stmt_effect [OF Cons.prems(2)] tx_exec_props(7) [OF tx] by blast
    with Cons.IH [OF rest] Some show ?thesis by simp
  qed
qed simp

text \<open>
  What the server accepts: names it does not reject, and counters that stay in the range of
  BIGINT at every step.
\<close>

definition op_fits :: "(string \<Rightarrow> goerror option) \<Rightarrow> metric_op \<Rightarrow> metric_state \<Rightarrow> bool" where
  "op_fits rej x a = (rej (fst (op_key x)) = None \<and> (case x of
     SetGauge n v \<Rightarrow> True
   | AddCounter n d \<Rightarrow> in_int64 (sint (go_get (c_of a) n) + sint d)))"

fun ops_fit :: "(string \<Rightarrow> goerror option) \<Rightarrow> metric_op list \<Rightarrow> metric_state \<Rightarrow> bool" where
  "ops_fit rej [] a = True"
| "ops_fit rej (x # xs) a = (op_fits rej x a \<and> ops_fit rej xs (apply_op x a))"

lemma db_stmt_fits:
  assumes "tb_ok tb" and "op_fits rej x (tb_abs tb)"
  shows "\<exists>tb'. db_stmt x rej t tb = Inr tb'"
  using assms
  by (cases x) (auto simp: op_fits_def sql_gauge_def sql_counter_def tb_abs_def split: option.splits)

lemma db_batch_fits:
  assumes "reliable (wld s)" and "tb_ok tb" and "list_all wf_metric ms"
    and "ops_fit (rejects (wld s)) (ops_of ms) (tb_abs tb)"
  shows "\<exists>tb' s'. db_batch_loop ms t0 tb s = (Inr tb', s')"
  using assms
proof (induction ms arbitrary: tb s)
  case (Cons m ms)
  then obtain x where x: "op_of m = Some x" by (auto simp: wf_metric_op)
  obtain tb1 where tb1: "db_stmt x (rejects (wld s)) t0 tb = Inr tb1"
    using db_stmt_fits [of tb "rejects (wld s)" x t0] Cons.prems x by auto
  obtain r s1 where tx: "tx_exec (db_stmt x) t0 tb s = (r, s1)" by force
  have r: "r = Inr tb1" using tx_exec_props(6) [OF tx Cons.prems(1)] tb1 by simp
  have e: "tb_ok tb1 \<and> tb_abs tb1 = apply_op x (tb_abs tb)"
    using db_stmt_effect [OF Cons.prems(2) tb1] .
  have "\<exists>tb' s'. db_batch_loop ms t0 tb1 s1 = (Inr tb', s')"
    using Cons.prems(3,4) x e tx_exec_props(2,5) [OF tx] Cons.prems(1) by (intro Cons.IH) auto
  with x tx r show ?case by (simp add: db_batch_step del: db_batch_loop.simps)
qed simp

section \<open>Updates and batches under Retry\<close>

lemma ctx_fresh: "0 < sint d \<Longrightarrow> ctx_Err (WithTimeout t d) t = None"
  by (simp add: ctx_Err_def WithTimeout_def)

lemma attempts_default [simp]: "MaxAttempts DefaultRetryConfig = 4"
  by (simp add: DefaultRetryConfig_def)

lemma db_retry_returns: "\<exists>r s'. db_retry ctx fn s = (Returned r, s')"
proof -
  have "fst (db_retry ctx fn s) \<noteq> Panicked m" for m
    unfolding db_retry_def by (rule Retry_no_panic) (simp add: DefaultRetryConfig_def)
  then show ?thesis by (metis fst_conv outcome.exhaust surj_pair)
qed

text \<open>
  An action that under clean calls either has its effect or changes nothing keeps that
  property under Retry: at most one attempt has an effect.
\<close>

lemma db_retry_clean:
  assumes "\<And>u r u'. clean (wld u) \<Longrightarrow> fn u = (r, u') \<Longrightarrow> clean (wld u') \<and> (case r of
      Some e \<Rightarrow> table (wld u') = table (wld u) | None \<Rightarrow> Q (table (wld u)) (table (wld u')))"
    and "clean (wld s)" and "db_retry ctx fn s = (Returned r, s')"
  shows "case r of Some e \<Rightarrow> table (wld s') = table (wld s) | None \<Rightarrow> Q (table (wld s)) (table (wld s'))"
proof -
  let ?I = "\<lambda>u :: DatabaseStorage. clean (wld u) \<and> table (wld u) = table (wld s)"
  have keep: "?I (u'\<lparr>now := t\<rparr>)" if "?I u" and "fn u = (Some e, u')" for u e u' t
    using assms(1) [of u "Some e" u'] that by simp
  obtain b u where fails: "retry_fails (class08 (wld s)) ctx DefaultRetryConfig (sched_at (wld s) (now s)) fn 0 s b u"
    and stop: "retry_stop (class08 (wld s)) ctx DefaultRetryConfig (sched_at (wld s) (now s)) fn b u (Returned r) s'"
    using assms(3) by (auto simp: db_retry_def Retry_iff)
  have I: "?I u"
  proof (rule retry_fails_inv [where I = ?I, OF fails])
    show "?I s" using assms(2) by simp
  qed (rule keep)
  have call: "case r' of Some e \<Rightarrow> table (wld u') = table (wld u) | None \<Rightarrow> Q (table (wld u)) (table (wld u'))"
    if "fn u = (r', u')" for r' u' using assms(1) [OF _ that] I by simp
  from stop I show ?thesis by cases (auto dest: call)
qed

lemma db_retry_reliable:
  assumes "\<And>u r u'. reliable (wld u) \<Longrightarrow> fn u = (r, u') \<Longrightarrow> reliable (wld u') \<and> rejects (wld u') = rejects (wld u)"
    and "reliable (wld s)"
  shows "reliable (wld (snd (db_retry ctx fn s))) \<and> rejects (wld (snd (db_retry ctx fn s))) = rejects (wld s)"
  unfolding db_retry_def
  by (rule Retry_inv [where I = "\<lambda>u. reliable (wld u) \<and> rejects (wld u) = rejects (wld s)"])
    (use assms in auto)

lemma db_perform_ok:
  assumes "reliable (wld s)"
  shows "reliable (wld (db_perform x s)) \<and> rejects (wld (db_perform x s)) = rejects (wld s)"
  unfolding db_perform_retry
  by (rule db_retry_reliable [OF _ assms]) (metis db_exec_reliable snd_conv)

lemma db_perform_abs:
  assumes "reliable (wld s)" and "op_fits (rejects (wld s)) x (db_abs s)"
  shows "db_abs (db_perform x s) = apply_op x (db_abs s)"
proof -
  have tb: "tb_ok (table (wld s))" using assms(1) by blast
  obtain tb' where tb': "db_stmt x (rejects (wld s)) (now s) (table (wld s)) = Inr tb'"
    using db_stmt_fits [OF tb assms(2) [unfolded db_abs_def], of "now s"] by blast
  then obtain s' where s': "db_exec (db_stmt x) s = (None, s')" and "table (wld s') = tb'"
    using db_exec_reliable [OF assms(1), of x] by (cases "db_exec (db_stmt x) s") auto
  moreover have "db_perform x s = s'"
    unfolding db_perform_retry db_retry_def
    using Retry_first_success [where fn = "db_exec (db_stmt x)" and s = s and s' = s'
        and ctx = "WithTimeout (now s) (10 * Second)" and cfg = DefaultRetryConfig] s'
    by (simp add: ctx_fresh Second_def)
  ultimately show ?thesis using db_stmt_effect [OF tb tb'] by (simp add: db_abs_def)
qed

lemma tx_commit_clean:
  assumes "clean (wld s)" and "tb_ok tb" and "tx_commit tb s = (r, s')"
  shows "clean (wld s') \<and> table (wld s') = (case r of Some e \<Rightarrow> table (wld s) | None \<Rightarrow> tb)"
proof -
  obtain c w where c: "next_call (wld s) = (c, w)" by force
  note p = next_call_props [OF c]
  show ?thesis using p(2,3) assms by (auto simp: tx_commit_def c Let_def clean_table)
qed

lemma db_batch_tx_clean:
  assumes "clean (wld s)" and "db_batch_tx ms s = (r, s')"
  shows "clean (wld s') \<and> (case r of Some e \<Rightarrow> table (wld s') = table (wld s)
    | None \<Rightarrow> tb_abs (table (wld s')) = apply_ops (ops_of ms) (tb_abs (table (wld s))))"
proof (cases "closed (wld s)")
  case False
  obtain b s1 where b: "tx_exec (\<lambda>rej t tb. Inr tb) (now s) (table (wld s)) s = (b, s1)" by force
  have s1: "clean (wld s1)" "table (wld s1) = table (wld s)" using tx_exec_props(1,4) [OF b] assms(1) by auto
  show ?thesis
  proof (cases b)
    case (Inr tb)
    then have tb: "tb = table (wld s)" using tx_exec_props(7) [OF b, of tb] by simp
    obtain q s2 where q: "db_batch_loop ms (now s1) tb s1 = (q, s2)" by force
    have s2: "clean (wld s2)" "table (wld s2) = table (wld s)" using db_batch_frame(1,4) [OF q] s1 by auto
    show ?thesis
    proof (cases q)
      case (Inl e)
      then show ?thesis using assms(2) False b \<open>b = Inr tb\<close> q s2 by (auto simp: db_batch_tx_def)
    next
      case (Inr tb2)
      then have tb2: "tb_ok tb2" "tb_abs tb2 = apply_ops (ops_of ms) (tb_abs (table (wld s)))"
        using db_batch_effect [of ms "now s1" tb s1 tb2 s2] q tb clean_ok [OF assms(1)] by auto
      have "tx_commit tb2 s2 = (r, s')"
        using assms(2) False b \<open>b = Inr tb\<close> q Inr by (simp add: db_batch_tx_def)
      from tx_commit_clean [OF s2(1) tb2(1) this] tb2(2) s2(2) show ?thesis
        by (auto split: option.splits)
    qed
  next
    case (Inl e)
    then show ?thesis using assms(2) False b s1 by (auto simp: db_batch_tx_def)
  qed
next
  case True
  then show ?thesis using assms by (auto simp: db_batch_tx_def)
qed

lemma db_batch_tx_reliable:
  assumes "reliable (wld s)" and "db_batch_tx ms s = (r, s')"
  shows "reliable (wld s') \<and> rejects (wld s') = rejects (wld s)"
proof -
  obtain b s1 where b: "tx_exec (\<lambda>rej t tb. Inr tb) (now s) (table (wld s)) s = (b, s1)" by force
  have open_: "\<not> closed (wld s)" and b': "b = Inr (table (wld s))"
    using assms(1) tx_exec_props(6) [OF b] by (auto simp: reliable_def)
  have s1: "reliable (wld s1)" "rejects (wld s1) = rejects (wld s)"
    using tx_exec_props(2,5) [OF b] assms(1) by auto
  obtain q s2 where q: "db_batch_loop ms (now s1) (table (wld s)) s1 = (q, s2)" by force
  have s2: "reliable (wld s2)" "rejects (wld s2) = rejects (wld s)" using db_batch_frame(2,5) [OF q] s1 by auto
  show ?thesis
  proof (cases q)
    case (Inl e)
    then show ?thesis using assms(2) open_ b b' q s2 by (auto simp: db_batch_tx_def)
  next
    case (Inr tb2)
    have "tb_ok tb2" using db_batch_effect [of ms "now s1" "table (wld s)" s1 tb2 s2] q Inr assms(1) by auto
    moreover obtain c w where c: "next_call (wld s2) = (c, w)" by force
    ultimately show ?thesis
      using assms(2) open_ b b' q s2 Inr next_call_props(1,4) [OF c]
      by (auto simp: db_batch_tx_def tx_commit_def c Let_def reliable_table)
  qed
qed

lemma db_batch_tx_fits:
  assumes "reliable (wld s)" and "list_all wf_metric ms" and "ops_fit (rejects (wld s)) (ops_of ms) (db_abs s)"
  shows "fst (db_batch_tx ms s) = None"
proof -
  obtain b s1 where b: "tx_exec (\<lambda>rej t tb. Inr tb) (now s) (table (wld s)) s = (b, s1)" by force
  have open_: "\<not> closed (wld s)" and b': "b = Inr (table (wld s))"
    using assms(1) tx_exec_props(6) [OF b] by (auto simp: reliable_def)
  have s1: "reliable (wld s1)" "rejects (wld s1) = rejects (wld s)"
    using tx_exec_props(2,5) [OF b] assms(1) by auto
  obtain tb2 s2 where q: "db_batch_loop ms (now s1) (table (wld s)) s1 = (Inr tb2, s2)"
    using db_batch_fits [OF s1(1) _ assms(2), of "table (wld s)" "now s1"] assms(1,3) s1(2)
    by (auto simp: db_abs_def)
  obtain c w where c: "next_call (wld s2) = (c, w)" by force
  then have "fate_of c = Healthy" using next_call_props(1) [OF c] db_batch_frame(5) [OF q] s1 by auto
  then show ?thesis using open_ b b' q c by (simp add: db_batch_tx_def tx_commit_def Let_def)
qed

lemma DB_UpdateBatch_tx:
  assumes "ms \<noteq> []" and "fst (db_batch_tx ms s) = None"
  shows "DB_UpdateBatch ms s = (None, snd (db_batch_tx ms s))"
proof -
  obtain s' where s': "db_batch_tx ms s = (None, s')" using assms(2) by (cases "db_batch_tx ms s") auto
  show ?thesis
    using assms(1) Retry_first_success [where fn = "db_batch_tx ms" and s = s and s' = s'
        and ctx = "WithTimeout (now s) (30 * Second)" and cfg = DefaultRetryConfig] s'
    by (simp add: DB_UpdateBatch_def db_retry_def ctx_fresh Second_def)
qed

lemma DB_UpdateBatch_fits:
  assumes "reliable (wld s)" and "list_all wf_metric ms" and "ops_fit (rejects (wld s)) (ops_of ms) (db_abs s)"
  shows "fst (DB_UpdateBatch ms s) = None \<and> db_abs (snd (DB_UpdateBatch ms s)) = apply_ops (ops_of ms) (db_abs s)"
proof (cases "ms = []")
  case False
  have ok: "fst (db_batch_tx ms s) = None" using db_batch_tx_fits [OF assms] .
  then show ?thesis
    using DB_UpdateBatch_tx [OF False ok] db_batch_tx_clean [OF reliable_clean [OF assms(1)], of ms]
    by (cases "db_batch_tx ms s") (auto simp: db_abs_def)
qed (simp add: DB_UpdateBatch_def)

lemma DB_UpdateBatch_reliable:
  assumes "reliable (wld s)"
  shows "reliable (wld (snd (DB_UpdateBatch ms s)))"
proof -
  have "reliable (wld (snd (db_retry ctx (db_batch_tx ms) s)))" for ctx
    by (rule db_retry_reliable [THEN conjunct1, OF _ assms]) (rule db_batch_tx_reliable)
  then show ?thesis
    using assms by (auto simp: DB_UpdateBatch_def Let_def split: prod.splits outcome.splits) (metis snd_conv)+
qed

section \<open>Reads on a reliable server\<close>

lemma filter_key:
  "distinct (map row_key tb) \<Longrightarrow> filter (\<lambda>r. row_name r = n \<and> row_type r = ty) tb
    = (case sel n ty tb of None \<Rightarrow> [] | Some r \<Rightarrow> [r])"
proof (induction tb)
  case (Cons r rs)
  show ?case
  proof (cases "row_name r = n \<and> row_type r = ty")
    case True
    with Cons.prems have "(n, ty) \<notin> set (map row_key rs)" by (auto simp: row_key_def)
    then have "sel n ty rs = None" by (simp only: sel_None not_False_eq_True)
    with Cons True show ?thesis by auto
  qed (use Cons in auto)
qed simp

definition key_query :: "string \<Rightarrow> string \<Rightarrow> dbrow list \<Rightarrow> dbrow list" where
  "key_query n ty = (\<lambda>tb. take 1 (order_desc (filter (\<lambda>r. row_name r = n \<and> row_type r = ty) tb)))"

lemma key_query_sel:
  "tb_ok tb \<Longrightarrow> key_query n ty tb = (case sel n ty tb of None \<Rightarrow> [] | Some r \<Rightarrow> [r])"
  by (auto simp: key_query_def filter_key tb_ok_def order_desc_def split: option.splits)

lemma db_query_reliable:
  assumes "reliable (wld s)"
  obtains s1 where "db_query q s = (Inr (q (table (wld s)), None), s1)"
    and "reliable (wld s1)" and "table (wld s1) = table (wld s)" and "rejects (wld s1) = rejects (wld s)"
proof -
  obtain c w where c: "next_call (wld s) = (c, w)" by force
  have "db_query q s = (Inr (q (table (wld s)), None), \<lparr>now = now s + took c, wld = w\<rparr>)"
    using assms next_call_props [OF c] by (auto simp: db_query_def c Let_def reliable_def)
  then show ?thesis using that next_call_props [OF c] assms by auto
qed

lemma no_rows_final: "\<not> IsRetriableError isc (Some no_rows)"
proof -
  have "\<not> contains p (to_lower ''no rows in result set'')" if "p \<in> set retriable_patterns" for p
    using that by (auto simp: retriable_patterns_def lower_char_def contains_def)
  then show ?thesis by (subst retriable_text) (auto simp: no_rows_def)
qed

lemma get_by_query_frame:
  assumes "reliable (wld s)"
  shows "table (wld (snd (get_by_query msg q col s))) = table (wld s)
    \<and> reliable (wld (snd (get_by_query msg q col s)))
    \<and> rejects (wld (snd (get_by_query msg q col s))) = rejects (wld s)"
proof -
  let ?I = "\<lambda>u. reliable (fst (wld u)) \<and> table (fst (wld u)) = table (wld s)
     \<and> rejects (fst (wld u)) = rejects (wld s)"
  have "?I (snd (Retry (class08 (wld s)) (WithTimeout (now s) (10 * Second)) DefaultRetryConfig
     (sched_at (wld s) (now s)) (query_row q col) \<lparr>now = now s, wld = (wld s, 0)\<rparr>))"
  proof (rule Retry_inv [where I = ?I])
    fix u r u1 assume I: "?I u" and u1: "query_row q col u = (r, u1)"
    obtain t where "db_query q \<lparr>now = now u, wld = fst (wld u)\<rparr> = (Inr (q (table (wld s)), None), t)"
      "reliable (wld t)" "table (wld t) = table (wld s)" "rejects (wld t) = rejects (wld s)"
      using db_query_reliable [of "\<lparr>now = now u, wld = fst (wld u)\<rparr>" q] I by auto
    with u1 show "?I u1" by (auto simp: query_row_def split: list.splits option.splits)
  qed (use assms in auto)
  then show ?thesis by (auto simp: get_by_query_def Let_def split: prod.splits outcome.splits option.splits)
qed

lemma get_by_query_reliable:
  assumes "reliable (wld s)"
  shows "case q (table (wld s)) of [] \<Rightarrow> \<exists>e. fst (get_by_query msg q col s) = Inl e
      | r # _ \<Rightarrow> (case col r of Some v \<Rightarrow> fst (get_by_query msg q col s) = Inr v | None \<Rightarrow> True)"
proof -
  let ?s = "\<lparr>now = now s, wld = (wld s, 0)\<rparr>"
  obtain t where t: "db_query q \<lparr>now = now s, wld = wld s\<rparr> = (Inr (q (table (wld s)), None), t)"
    using db_query_reliable [of "\<lparr>now = now s, wld = wld s\<rparr>" q] assms by auto
  have ctx: "ctx_Err (WithTimeout (now s) (10 * Second)) (now ?s) = None" by (simp add: ctx_fresh Second_def)
  note [simp] = ctx query_row_def t
  show ?thesis
  proof (cases "q (table (wld s))")
    case Nil
    have "query_row q col ?s = (Some no_rows, \<lparr>now = now t, wld = (wld t, 0)\<rparr>)" by (simp add: Nil)
    from Retry_final_error [where fn = "query_row q col", OF ctx this no_rows_final] Nil
    show ?thesis by (simp add: get_by_query_def)
  next
    case (Cons r rs)
    show ?thesis
    proof (cases "col r")
      case (Some v)
      have "query_row q col ?s = (None, \<lparr>now = now t, wld = (wld t, v)\<rparr>)" by (simp add: Cons Some)
      from Retry_first_success [where fn = "query_row q col", OF ctx this] Cons Some
      show ?thesis by (simp add: get_by_query_def)
    qed (simp add: Cons)
  qed
qed

lemma DB_Get_query:
  "DB_GetGauge n s = get_by_query (''failed to get gauge metric '' @ n @ '': '') (key_query n ''gauge'') row_value s"
  "DB_GetCounter n s = get_by_query (''failed to get counter metric '' @ n @ '': '') (key_query n ''counter'') row_delta s"
  by (simp_all add: DB_GetGauge_def DB_GetCounter_def key_query_def)

lemma DB_Get_frame:
  assumes "reliable (wld s)"
  shows "db_abs (snd (DB_GetGauge n s)) = db_abs s" "db_abs (snd (DB_GetCounter n s)) = db_abs s"
    "reliable (wld (snd (DB_GetGauge n s)))" "reliable (wld (snd (DB_GetCounter n s)))"
  by (simp_all add: DB_Get_query db_abs_def get_by_query_frame [OF assms])

lemma get_by_key:
  assumes "reliable (wld s)"
  shows "Option.bind (sel n ty (table (wld s))) col = Some v \<Longrightarrow> fst (get_by_query msg (key_query n ty) col s) = Inr v"
    and "sel n ty (table (wld s)) = None \<Longrightarrow> \<exists>e. fst (get_by_query msg (key_query n ty) col s) = Inl e"
  using get_by_query_reliable [OF assms, where q = "key_query n ty" and msg = msg and col = col] key_query_sel [OF reliable_ok [OF assms], of n ty]
  by (auto simp: bind_eq_Some_conv)

lemma sel_ok:
  assumes "tb_ok tb" and "sel n ty tb = Some r"
  shows "ty = ''gauge'' \<Longrightarrow> row_value r \<noteq> None" and "ty = ''counter'' \<Longrightarrow> row_delta r \<noteq> None"
  using assms sel_Some [OF assms(2)] by (auto simp: tb_ok_def list_all_iff row_ok_def)

lemma tb_abs_None:
  assumes "tb_ok tb"
  shows "g_of (tb_abs tb) n = None \<Longrightarrow> sel n ''gauge'' tb = None"
    and "c_of (tb_abs tb) n = None \<Longrightarrow> sel n ''counter'' tb = None"
  using sel_ok(1) [OF assms, of n "''gauge''"] sel_ok(2) [OF assms, of n "''counter''"]
  by (cases "sel n ''gauge'' tb"; cases "sel n ''counter'' tb"; simp add: tb_abs_def)+

section \<open>The database keeps the contract\<close>

interpretation db: metric_store db_perform DB_GetGauge DB_GetCounter DB_UpdateBatch db_abs
  "\<lambda>s. reliable (wld s)" "\<lambda>s xs. ops_fit (rejects (wld s)) xs (db_abs s)"
proof unfold_locales
  fix s :: DatabaseStorage and x xs
  assume ok: "reliable (wld s)"
  show "reliable (wld (db_perform x s))" using db_perform_ok [OF ok] by blast
  show "db_abs (db_perform x s) = apply_op x (db_abs s)" if "ops_fit (rejects (wld s)) [x] (db_abs s)"
    using db_perform_abs [OF ok] that by simp
  show "ops_fit (rejects (wld s)) (x # xs) (db_abs s) \<longleftrightarrow> ops_fit (rejects (wld s)) [x] (db_abs s)
      \<and> ops_fit (rejects (wld (db_perform x s))) xs (db_abs (db_perform x s))"
    using db_perform_abs [OF ok, of x] db_perform_ok [OF ok, of x] by auto
next
  fix s :: DatabaseStorage and n
  assume ok: "reliable (wld s)"
  show "fst (DB_GetGauge n s) = Inr v" if "g_of (db_abs s) n = Some v" for v
    using get_by_key(1) [OF ok] that by (simp add: DB_Get_query db_abs_def tb_abs_def)
  show "fst (DB_GetCounter n s) = Inr c" if "c_of (db_abs s) n = Some c" for c
    using get_by_key(1) [OF ok] that by (simp add: DB_Get_query db_abs_def tb_abs_def)
  show "\<exists>e. fst (DB_GetGauge n s) = Inl e" if "g_of (db_abs s) n = None"
    using get_by_key(2) [OF ok tb_abs_None(1) [OF reliable_ok [OF ok]]] that by (simp add: DB_Get_query db_abs_def)
  show "\<exists>e. fst (DB_GetCounter n s) = Inl e" if "c_of (db_abs s) n = None"
    using get_by_key(2) [OF ok tb_abs_None(2) [OF reliable_ok [OF ok]]] that by (simp add: DB_Get_query db_abs_def)
  show "db_abs (snd (DB_GetGauge n s)) = db_abs s" "db_abs (snd (DB_GetCounter n s)) = db_abs s"
    "reliable (wld (snd (DB_GetGauge n s)))" "reliable (wld (snd (DB_GetCounter n s)))"
    using DB_Get_frame [OF ok] by simp_all
next
  fix s :: DatabaseStorage and ms
  assume ok: "reliable (wld s)"
  show "reliable (wld (snd (DB_UpdateBatch ms s)))" by (rule DB_UpdateBatch_reliable [OF ok])
  show "fst (DB_UpdateBatch ms s) = None \<and> db_abs (snd (DB_UpdateBatch ms s)) = apply_ops (ops_of ms) (db_abs s)"
    if "\<forall>m \<in> set ms. wf_metric m" and "ops_fit (rejects (wld s)) (ops_of ms) (db_abs s)"
    using DB_UpdateBatch_fits [OF ok _ that(2)] that(1) by (simp add: list_all_iff)
qed

section \<open>Reading everything\<close>

lemma collect_rows_notin: "n \<notin> row_name ` set rs \<Longrightarrow> collect_rows e col rs m n = m n"
  by (induction rs arbitrary: m) (auto split: option.splits)

lemma collect_rows_all:
  assumes "distinct (map row_name rs)" and "\<And>r. r \<in> set rs \<Longrightarrow> col r \<noteq> None"
  shows "collect_rows e col rs m n = (case find (\<lambda>r. row_name r = n) rs of None \<Rightarrow> m n | Some r \<Rightarrow> col r)"
  using assms
proof (induction rs arbitrary: m)
  case (Cons r rs)
  then obtain v where "col r = Some v" by fastforce
  moreover have "find (\<lambda>q. row_name q = row_name r) rs = None"
    using Cons.prems(1) by (auto simp: find_None_iff image_iff)
  ultimately show ?case using Cons by (auto simp: collect_rows_notin split: option.splits)
qed simp

lemma find_unique:
  assumes "distinct (map row_name rs)"
  shows "find (\<lambda>r. row_name r = n) rs = Some r \<longleftrightarrow> r \<in> set rs \<and> row_name r = n"
  using assms by (induction rs) (auto simp: image_iff)

lemma collect_sorted:
  assumes "tb_ok tb" and col: "\<And>r. r \<in> set tb \<Longrightarrow> row_type r = ty \<Longrightarrow> col r \<noteq> None"
  shows "collect_rows e col (order_desc (filter (\<lambda>r. row_type r = ty) tb)) Map.empty n = Option.bind (sel n ty tb) col"
proof -
  let ?rs = "order_desc (filter (\<lambda>r. row_type r = ty) tb)"
  have "distinct (map row_name (filter (\<lambda>r. row_type r = ty) tb))"
    using assms(1) by (auto simp: tb_ok_def distinct_map row_key_def inj_on_def)
  then have d: "distinct (map row_name ?rs)"
    by (simp add: order_desc_def distinct_map)
  have set_rs: "set ?rs = {r \<in> set tb. row_type r = ty}" by (auto simp: order_desc_def)
  have "find (\<lambda>r. row_name r = n) ?rs = sel n ty tb"
  proof (cases "sel n ty tb")
    case (Some r)
    then show ?thesis using sel_Some [OF Some] by (simp add: find_unique [OF d] set_rs)
  next
    case None
    then have "(n, ty) \<notin> row_key ` set tb" by (simp add: sel_None)
    then have "\<nexists>r. r \<in> set ?rs \<and> row_name r = n" by (auto simp: set_rs row_key_def)
    then show ?thesis using None find_unique [OF d, of n] by (metis not_None_eq)
  qed
  then show ?thesis
    using collect_rows_all [OF d, of col e Map.empty n] col by (auto simp: set_rs split: option.splits)
qed

lemma DB_GetAll_reliable:
  assumes "reliable (wld s)"
  shows "fst (DB_GetAllGauges s) = g_of (db_abs s)" and "fst (DB_GetAllCounters s) = c_of (db_abs s)"
proof -
  have tb: "tb_ok (table (wld s))" using assms by blast
  then have rows: "row_ok r" if "r \<in> set (table (wld s))" for r using that by (simp add: tb_ok_def list_all_iff)
  obtain s1 where "db_query (\<lambda>tb. order_desc (filter (\<lambda>r. row_type r = ''gauge'') tb)) s
      = (Inr (order_desc (filter (\<lambda>r. row_type r = ''gauge'') (table (wld s))), None), s1)"
    using db_query_reliable [OF assms] by blast
  then show "fst (DB_GetAllGauges s) = g_of (db_abs s)"
    using rows by (auto simp: DB_GetAllGauges_def collect_sorted [OF tb] row_ok_def db_abs_def tb_abs_def)
  obtain s2 where "db_query (\<lambda>tb. order_desc (filter (\<lambda>r. row_type r = ''counter'') tb)) s
      = (Inr (order_desc (filter (\<lambda>r. row_type r = ''counter'') (table (wld s))), None), s2)"
    using db_query_reliable [OF assms] by blast
  then show "fst (DB_GetAllCounters s) = c_of (db_abs s)"
    using rows by (auto simp: DB_GetAllCounters_def collect_sorted [OF tb] row_ok_def db_abs_def tb_abs_def)
qed

section \<open>A batch with a metric of unknown type\<close>

lemma db_batch_unknown:
  assumes "list_ex (\<lambda>m. MType m \<noteq> ''gauge'' \<and> MType m \<noteq> ''counter'') ms"
  shows "\<exists>e. fst (db_batch_loop ms t0 tb s) = Inl e"
  using assms
proof (induction ms arbitrary: tb s)
  case (Cons m ms)
  have "op_of m = None" if "MType m \<noteq> ''gauge'' \<and> MType m \<noteq> ''counter''"
    using that by (simp add: op_of_def Gauge_def Counter_def)
  with Cons show ?case
    by (auto simp: db_batch_step simp del: db_batch_loop.simps split: option.splits prod.splits sum.splits)
qed simp

lemma db_batch_tx_unknown:
  assumes "list_ex (\<lambda>m. MType m \<noteq> ''gauge'' \<and> MType m \<noteq> ''counter'') ms" and "db_batch_tx ms s = (r, s')"
  shows "r \<noteq> None \<and> table (wld s') = table (wld s)"
proof -
  obtain b s1 where b: "tx_exec (\<lambda>rej t tb. Inr tb) (now s) (table (wld s)) s = (b, s1)" by force
  obtain q s2 where q: "db_batch_loop ms (now s1) (projr b) s1 = (q, s2)" by force
  then obtain e where "q = Inl e" using db_batch_unknown [OF assms(1), of "now s1" "projr b" s1] by auto
  then show ?thesis
    using assms(2) b q tx_exec_props(1) [OF b] db_batch_frame(1) [OF q]
    by (auto simp: db_batch_tx_def split: if_splits sum.splits)
qed

section \<open>Sample worlds\<close>

definition sample_db :: "dbrow list \<Rightarrow> dbcall list \<Rightarrow> DatabaseStorage" where
  "sample_db tb cs = \<lparr>now = 0, wld = \<lparr>connected = True, closed = False, table = tb, calls = cs,
     rejects = (\<lambda>n. if length n \<le> 255 then None else Some (PgErr ''22001'' ''value too long'')),
     class08 = prefix ''08'', sched_at = (\<lambda>_. \<lparr>tie = (\<lambda>_. True), lag = (\<lambda>_. 0)\<rparr>), scan_closes = True\<rparr>\<rparr>"

definition sample_row :: "string \<Rightarrow> int64 \<Rightarrow> nat \<Rightarrow> dbrow" where
  "sample_row n d t = \<lparr>row_name = n, row_type = ''counter'', row_value = None, row_delta = Some d, row_created = t\<rparr>"

lemma sample_db_simps [simp]:
  "table (wld (sample_db tb cs)) = tb"
  "rejects (wld (sample_db tb cs)) n = (if length n \<le> 255 then None else Some (PgErr ''22001'' ''value too long''))"
  "db_abs (sample_db tb cs) = tb_abs tb"
  "clean (wld (sample_db tb cs)) \<longleftrightarrow> tb_ok tb
    \<and> list_all (\<lambda>c. case fate_of c of Healthy \<Rightarrow> True | LostBefore e \<Rightarrow> True | _ \<Rightarrow> False) cs"
  "reliable (wld (sample_db tb cs)) \<longleftrightarrow> tb_ok tb \<and> list_all (\<lambda>c. fate_of c = Healthy) cs"
  by (simp_all add: sample_db_def clean_def reliable_def db_abs_def)

lemma sample_row_ok [simp]: "tb_ok [] " "tb_ok [sample_row n d t]"
  "tb_abs [sample_row n d t] = \<lparr>g_of = Map.empty, c_of = [n \<mapsto> d]\<rparr>" "tb_abs [] = \<lparr>g_of = Map.empty, c_of = Map.empty\<rparr>"
  by (auto simp: sample_row_def tb_ok_def row_ok_def tb_abs_def)

lemmas sample_run_simps =
  sample_db_def sample_row_def db_retry_def Retry_def retry_loop.simps ctx_Err_def WithTimeout_def
  db_exec_def db_query_def next_call_def Second_def IsRetriableError_def select_after_def DefaultRetryConfig_def
  in_int64_def Let_def

section \<open>Properties\<close>



text \<open>
  A metric of an unknown type fails the whole batch, whatever happens on the network:
  UpdateBatch returns an error and no row changes, because Commit is never reached.
\<close>

lemma db_batch_unknown_type:
  assumes "list_ex (\<lambda>m. MType m \<noteq> ''gauge'' \<and> MType m \<noteq> ''counter'') ms"
  shows "fst (DB_UpdateBatch ms s) \<noteq> None \<and> table (wld (snd (DB_UpdateBatch ms s))) = table (wld s)"
proof -
  let ?ctx = "WithTimeout (now s) (30 * Second)"
  have ne: "ms \<noteq> []" using assms by auto
  obtain r s' where r: "db_retry ?ctx (db_batch_tx ms) s = (Returned r, s')" using db_retry_returns by blast
  have "table (wld (snd (db_retry ?ctx (db_batch_tx ms) s))) = table (wld s)"
    unfolding db_retry_def
    by (rule Retry_inv [where I = "\<lambda>u. table (wld u) = table (wld s)"])
      (auto dest: db_batch_tx_unknown [OF assms])
  moreover have "r \<noteq> None"
  proof
    assume "r = None"
    with r have "Retry (class08 (wld s)) ?ctx DefaultRetryConfig (sched_at (wld s) (now s)) (db_batch_tx ms) s
        = (Returned None, s')" by (simp add: db_retry_def)
    from Retry_success [where I = "\<lambda>_. True", OF this] obtain u where "db_batch_tx ms u = (None, s')" by auto
    then show False using db_batch_tx_unknown [OF assms] by blast
  qed
  ultimately show ?thesis using ne r by (simp add: DB_UpdateBatch_def)
qed

lemma db_batch_unknown_type_witness:
  "fst (DB_UpdateBatch [sample_counter, sample_counter\<lparr>MType := ''histogram''\<rparr>] (sample_db [sample_row ''c'' 3 0] [])) \<noteq> None
    \<and> table (wld (snd (DB_UpdateBatch [sample_counter, sample_counter\<lparr>MType := ''histogram''\<rparr>]
        (sample_db [sample_row ''c'' 3 0] [])))) = [sample_row ''c'' 3 0]"
  using db_batch_unknown_type [of "[sample_counter, sample_counter\<lparr>MType := ''histogram''\<rparr>]" "sample_db [sample_row ''c'' 3 0] []"]
  by simp

text \<open>
  C24: an update is applied at most once as long as no call fails after the server has acted:
  after UpdateCounter the table shows either one addition or nothing new.
\<close>

theorem db_update_at_most_once:
  assumes "clean (wld s)"
  shows "db_abs (DB_UpdateCounter n d s) = apply_op (AddCounter n d) (db_abs s)
    \<or> table (wld (DB_UpdateCounter n d s)) = table (wld s)"
proof -
  let ?fn = "db_exec (db_stmt (AddCounter n d))" and ?ctx = "WithTimeout (now s) (10 * Second)"
  obtain r s' where r: "db_retry ?ctx ?fn s = (Returned r, s')" using db_retry_returns by blast
  have "case r of Some e \<Rightarrow> table (wld s') = table (wld s)
    | None \<Rightarrow> tb_abs (table (wld s')) = apply_op (AddCounter n d) (tb_abs (table (wld s)))"
    by (rule db_retry_clean [OF db_exec_clean assms r])
  moreover have "DB_UpdateCounter n d s = s'" using db_perform_retry [of "AddCounter n d" s] r by simp
  ultimately show ?thesis by (auto simp: db_abs_def split: option.splits)
qed

theorem db_update_at_most_once_witness:
  "let s = sample_db [sample_row ''c'' 3 0] [\<lparr>took = 5, fate_of = LostBefore (PgErr ''08006'' ''gone'')\<rparr>]
    in db_abs (DB_UpdateCounter ''c'' 4 s) = \<lparr>g_of = Map.empty, c_of = [''c'' \<mapsto> 7]\<rparr>
      \<or> table (wld (DB_UpdateCounter ''c'' 4 s)) = [sample_row ''c'' 3 0]"
  using db_update_at_most_once [of "sample_db [sample_row ''c'' 3 0] [\<lparr>took = 5, fate_of = LostBefore (PgErr ''08006'' ''gone'')\<rparr>]" "''c''" 4]
  by (simp add: Let_def)

text \<open>
  When the acknowledgement of a statement is lost with a connection error, the retry adds
  the delta a second time: on an empty table one UpdateCounter by 5
  leaves 10.
\<close>

lemma db_lost_ack_counts_twice:
  "table (wld (DB_UpdateCounter ''c'' 5 (sample_db [] [\<lparr>took = 2, fate_of = LostAfter (PgErr ''08006'' ''gone'')\<rparr>])))
    = [sample_row ''c'' 10 1000000002]"
  by (simp add: sample_run_simps DB_UpdateCounter_def sql_counter_def)

text \<open>
  C31: the maps that GetAllGauges and GetAllCounters return show, for every name, what GetGauge
  and GetCounter return for it, when the calls succeed.
\<close>

theorem db_get_all_is_pointwise:
  assumes "reliable (wld s)"
  shows "fst (DB_GetAllGauges s) n = result_of (fst (DB_GetGauge n s))
    \<and> fst (DB_GetAllCounters s) n = result_of (fst (DB_GetCounter n s))"
  using assms by (simp add: DB_GetAll_reliable db.get_results)

theorem db_get_all_is_pointwise_witness:
  "fst (DB_GetAllCounters (sample_db [sample_row ''c'' 3 0] [])) ''c''
    = result_of (fst (DB_GetCounter ''c'' (sample_db [sample_row ''c'' 3 0] [])))"
  using db_get_all_is_pointwise [of "sample_db [sample_row ''c'' 3 0] []" "''c''"] by simp

text \<open>
  GetAllMetrics puts gauges and counters into one map, newest row first, so that of two
  metrics of the same name the one with the OLDER timestamp is shown.
\<close>

theorem db_get_all_metrics_oldest:
  "fst (DB_GetAllMetrics (sample_db [sample_row ''m'' 3 10,
     \<lparr>row_name = ''m'', row_type = ''gauge'', row_value = Some f64_one_half, row_delta = None, row_created = 20\<rparr>] []))
    = [''m'' \<mapsto> Inr 3]"
  by (simp add: sample_run_simps DB_GetAllMetrics_def all_metrics_query_def order_desc_def)

end
