(* ===== verification/Stores.thy ===== *)
theory Stores
  imports MemStorage DBStorage
begin

text \<open>
  \<^verbatim>\<open>internal/storage/storage.go\<close>: the interface \<open>Storage\<close> and the choice between its two
  implementations. A value of the interface type is either a memory store or a database; each
  method dispatches on it. The dispatching operations keep the contract of \<open>metric_store\<close>,
  because both implementations do.
\<close>

section \<open>The interface value\<close>

datatype store = InMemory MemStorage | InDatabase DatabaseStorage

fun UpdateGauge :: "string \<Rightarrow> float64 \<Rightarrow> store \<Rightarrow> store" where
  "UpdateGauge n v (InMemory m) = InMemory (Mem_UpdateGauge n v m)"
| "UpdateGauge n v (InDatabase d) = InDatabase (DB_UpdateGauge n v d)"

fun UpdateCounter :: "string \<Rightarrow> int64 \<Rightarrow> store \<Rightarrow> store" where
  "UpdateCounter n v (InMemory m) = InMemory (Mem_UpdateCounter n v m)"
| "UpdateCounter n v (InDatabase d) = InDatabase (DB_UpdateCounter n v d)"

fun GetGauge :: "string \<Rightarrow> store \<Rightarrow> (goerror + float64) \<times> store" where
  "GetGauge n (InMemory m) = (Mem_GetGauge n m, InMemory m)"
| "GetGauge n (InDatabase d) = map_prod id InDatabase (DB_GetGauge n d)"

fun GetCounter :: "string \<Rightarrow> store \<Rightarrow> (goerror + int64) \<times> store" where
  "GetCounter n (InMemory m) = (Mem_GetCounter n m, InMemory m)"
| "GetCounter n (InDatabase d) = map_prod id InDatabase (DB_GetCounter n d)"

fun GetAllGauges :: "store \<Rightarrow> (string \<rightharpoonup> float64) \<times> store" where
  "GetAllGauges (InMemory m) = (Mem_GetAllGauges m, InMemory m)"
| "GetAllGauges (InDatabase d) = map_prod id InDatabase (DB_GetAllGauges d)"

fun GetAllCounters :: "store \<Rightarrow> (string \<rightharpoonup> int64) \<times> store" where
  "GetAllCounters (InMemory m) = (Mem_GetAllCounters m, InMemory m)"
| "GetAllCounters (InDatabase d) = map_prod id InDatabase (DB_GetAllCounters d)"

fun UpdateBatch :: "Metrics list \<Rightarrow> store \<Rightarrow> goerror option \<times> store" where
  "UpdateBatch ms (InMemory m) = map_prod id InMemory (Mem_UpdateBatch ms m)"
| "UpdateBatch ms (InDatabase d) = map_prod id InDatabase (DB_UpdateBatch ms d)"

fun Ping :: "store \<Rightarrow> goerror option \<times> store" where
  "Ping (InMemory m) = (Mem_Ping m, InMemory m)"
| "Ping (InDatabase d) = map_prod id InDatabase (DB_Ping d)"

fun IsDatabase :: "store \<Rightarrow> bool" where
  "IsDatabase (InMemory m) = Mem_IsDatabase m"
| "IsDatabase (InDatabase d) = DB_IsDatabase d"

fun IsAvailable :: "store \<Rightarrow> bool" where
  "IsAvailable (InMemory m) = Mem_IsAvailable m"
| "IsAvailable (InDatabase d) = DB_IsAvailable d"

fun SaveToFile :: "golib \<Rightarrow> string \<Rightarrow> store \<Rightarrow> filesystem \<Rightarrow> goerror option \<times> filesystem" where
  "SaveToFile L f (InMemory m) fs = Mem_SaveToFile L f m fs"
| "SaveToFile L f (InDatabase d) fs = (DB_SaveToFile f d, fs)"

fun LoadFromFile :: "golib \<Rightarrow> string \<Rightarrow> filesystem \<Rightarrow> store \<Rightarrow> goerror option \<times> store" where
  "LoadFromFile L f fs (InMemory m) = map_prod id InMemory (Mem_LoadFromFile L f fs m)"
| "LoadFromFile L f fs (InDatabase d) = (DB_LoadFromFile f d, InDatabase d)"

section \<open>The contract\<close>

fun store_perform :: "metric_op \<Rightarrow> store \<Rightarrow> store" where
  "store_perform (SetGauge n v) s = UpdateGauge n v s"
| "store_perform (AddCounter n d) s = UpdateCounter n d s"

fun store_abs :: "store \<Rightarrow> metric_state" where
  "store_abs (InMemory m) = mem_abs m"
| "store_abs (InDatabase d) = db_abs d"

fun store_ok :: "store \<Rightarrow> bool" where
  "store_ok (InMemory m) = True"
| "store_ok (InDatabase d) = reliable (wld d)"

fun store_accepts :: "store \<Rightarrow> metric_op list \<Rightarrow> bool" where
  "store_accepts (InMemory m) xs = True"
| "store_accepts (InDatabase d) xs = ops_fit (rejects (wld d)) xs (db_abs d)"

lemma store_perform_cases:
  "store_perform x (InMemory m) = InMemory (mem_perform x m)"
  "store_perform x (InDatabase d) = InDatabase (db_perform x d)"
  by (cases x; simp)+

interpretation st: metric_store store_perform GetGauge GetCounter UpdateBatch store_abs store_ok store_accepts
proof unfold_locales
  fix s x xs
  assume ok: "store_ok s"
  show "store_abs (store_perform x s) = apply_op x (store_abs s)" if "store_accepts s [x]"
    using ok that db.abst_perform by (cases s) (simp_all add: store_perform_cases)
  show "store_ok (store_perform x s)"
    using ok db.ok_perform by (cases s) (simp_all add: store_perform_cases)
  show "store_accepts s (x # xs) \<longleftrightarrow> store_accepts s [x] \<and> store_accepts (store_perform x s) xs"
  proof (cases s)
    case (InDatabase d)
    with ok have "reliable (wld d)" by simp
    from db.accepts_Cons [OF this, of x xs] InDatabase show ?thesis by (simp add: store_perform_cases)
  qed (simp add: store_perform_cases)
next
  fix s n
  assume ok: "store_ok s"
  show "fst (GetGauge n s) = Inr v" if "g_of (store_abs s) n = Some v" for v
    using ok that mem.get_gauge_Some db.get_gauge_Some by (cases s) simp_all
  show "\<exists>e. fst (GetGauge n s) = Inl e" if "g_of (store_abs s) n = None"
    using ok that mem.get_gauge_None db.get_gauge_None by (cases s) simp_all
  show "fst (GetCounter n s) = Inr c" if "c_of (store_abs s) n = Some c" for c
    using ok that mem.get_counter_Some db.get_counter_Some by (cases s) simp_all
  show "\<exists>e. fst (GetCounter n s) = Inl e" if "c_of (store_abs s) n = None"
    using ok that mem.get_counter_None db.get_counter_None by (cases s) simp_all
  show "store_abs (snd (GetGauge n s)) = store_abs s" "store_abs (snd (GetCounter n s)) = store_abs s"
    using ok db.abst_get by (cases s; simp)+
  show "store_ok (snd (GetGauge n s))" "store_ok (snd (GetCounter n s))"
    using ok db.ok_get by (cases s; simp)+
next
  fix s ms
  assume ok: "store_ok s"
  show "fst (UpdateBatch ms s) = None \<and> store_abs (snd (UpdateBatch ms s)) = apply_ops (ops_of ms) (store_abs s)"
    if "\<forall>m \<in> set ms. wf_metric m" and "store_accepts s (ops_of ms)"
    using ok that mem.batch_result [where ms = ms] db.batch_result [where ms = ms] by (cases s) simp_all
  show "store_ok (snd (UpdateBatch ms s))"
    using ok db.ok_batch by (cases s) simp_all
qed

lemma GetAll_ok:
  assumes "store_ok s"
  shows "fst (GetAllGauges s) = g_of (store_abs s)" and "fst (GetAllCounters s) = c_of (store_abs s)"
  using assms by (cases s; simp add: Mem_GetAllGauges_def Mem_GetAllCounters_def DB_GetAll_reliable)+

section \<open>Properties\<close>

text \<open>
  C5: the two implementations of the interface are interchangeable. From stores that represent
  the same gauges and counters, after the same run of updates, if the database accepts them
  and its calls succeed, every read of a counter or a gauge agrees: the same value from both,
  or an error from both.
\<close>

theorem stores_agree:
  assumes "store_ok s" and "store_ok t" and "store_abs s = store_abs t"
    and "store_accepts s xs" and "store_accepts t xs"
  shows "result_of (fst (GetCounter n (fold store_perform xs s))) = result_of (fst (GetCounter n (fold store_perform xs t)))
    \<and> result_of (fst (GetGauge n (fold store_perform xs s))) = result_of (fst (GetGauge n (fold store_perform xs t)))"
  using assms by (simp add: st.get_results st.ok_run st.abst_run)

theorem stores_agree_witness:
  "result_of (fst (GetCounter ''c'' (fold store_perform [AddCounter ''c'' 4, SetGauge ''g'' 1, AddCounter ''c'' 5]
        (InMemory \<lparr>gauges = Map.empty, counters = [''c'' \<mapsto> 3]\<rparr>))))
    = result_of (fst (GetCounter ''c'' (fold store_perform [AddCounter ''c'' 4, SetGauge ''g'' 1, AddCounter ''c'' 5]
        (InDatabase (sample_db [sample_row ''c'' 3 0] [])))))"
  by (rule stores_agree [THEN conjunct1])
    (simp_all add: mem_abs_def op_fits_def in_int64_def Gauge_def Counter_def)

text \<open>
  C21: a batch does what the same updates one by one would do, for both implementations: on
  well-formed metrics that the store accepts, UpdateBatch succeeds and every later read gives
  what it would give after the single updates.
\<close>

theorem batch_is_single_updates:
  assumes "store_ok s" and "list_all wf_metric ms" and "store_accepts s (ops_of ms)"
  shows "fst (UpdateBatch ms s) = None
    \<and> result_of (fst (GetCounter n (snd (UpdateBatch ms s)))) = result_of (fst (GetCounter n (fold store_perform (ops_of ms) s)))
    \<and> result_of (fst (GetGauge n (snd (UpdateBatch ms s)))) = result_of (fst (GetGauge n (fold store_perform (ops_of ms) s)))"
  using assms st.batch_result [of s ms] st.batch_as_run [of s ms]
  by (simp add: st.get_results st.ok_run st.ok_batch list_all_iff)

theorem batch_is_single_updates_witness:
  "fst (UpdateBatch [sample_counter, sample_gauge, sample_counter] (InDatabase (sample_db [sample_row ''c'' 3 0] []))) = None"
  by (rule batch_is_single_updates [THEN conjunct1])
    (simp_all add: wf_metric_def op_of_def sample_counter_def sample_gauge_def op_fits_def in_int64_def Gauge_def Counter_def)

end
