(* ===== verification/Handlers.thy ===== *)
theory Handlers
  imports Http Stores "HOL-Library.AList"
begin

text \<open>
  \<^verbatim>\<open>internal/server/handlers.go\<close>: the HTTP handlers, each translated branch by branch on a response
  writer and the state of the handlers (the store and the key). The iteration order of a Go
  map is unspecified; where a handler ranges over one, the order is the argument \<open>ord\<close>, of
  which the theorems assume only that it is a permutation.
\<close>

section \<open>State and signing\<close>

record Handlers =
  storage :: store
  key :: string

definition NewHandlers :: "store \<Rightarrow> string \<Rightarrow> Handlers" where
  "NewHandlers st k = \<lparr>storage = st, key = k\<rparr>"

definition addHashToResponse :: "Handlers \<Rightarrow> bytes \<Rightarrow> writer \<Rightarrow> writer" where
  "addHashToResponse h data w =
     (if key h \<noteq> [] then set_header HashSHA256 (CalculateHash data (key h)) w else w)"

definition addHashToMetrics :: "Handlers \<Rightarrow> Metrics \<Rightarrow> Metrics" where
  "addHashToMetrics h m =
     (if key h = [] then m
      else (let data =
              (if MType m = ''counter'' then (case Delta m of Some d \<Rightarrow> sprintf_d (ID m) (MType m) d | None \<Rightarrow> [])
               else if MType m = ''gauge'' then (case Value m of Some v \<Rightarrow> sprintf_f (ID m) (MType m) v | None \<Rightarrow> [])
               else [])
            in if data \<noteq> [] then m\<lparr>Hash := CalculateHash data (key h)\<rparr> else m))"

section \<open>Checking hashes\<close>

definition checkJSONHash :: "golib \<Rightarrow> Handlers \<Rightarrow> request \<Rightarrow> bool \<times> request" where
  "checkJSONHash L h r =
     (case ReadAll (Body r) of
        Inl e \<Rightarrow> (False, r)
      | Inr body \<Rightarrow>
         (let r1 = r\<lparr>Body := byte_stream body\<rparr>;
              h1 = Header_Get (ReqHeader r) HashSHA256;
              headerHash = (if h1 = [] then Header_Get (ReqHeader r) Hash_Header else h1)
          in if headerHash = ''none'' then (True, r1)
             else (case UnmarshalMetric L body of
                None \<Rightarrow> (False, r1)
              | Some m \<Rightarrow>
                  if Hash m = [] \<and> headerHash = [] then (True, r1)
                  else if headerHash \<noteq> [] then (VerifyHash body (key h) headerHash, r1)
                  else if Hash m = [] then (False, r1)
                  else if MType m = ''counter'' then
                    (case Delta m of
                       None \<Rightarrow> (False, r1)
                     | Some d \<Rightarrow> (VerifyHash (sprintf_d (ID m) (MType m) d) (key h) (Hash m), r1))
                  else if MType m = ''gauge'' then
                    (case Value m of
                       None \<Rightarrow> (False, r1)
                     | Some v \<Rightarrow> (VerifyHash (sprintf_f (ID m) (MType m) v) (key h) (Hash m), r1))
                  else (False, r1))))"

definition checkHash :: "golib \<Rightarrow> Handlers \<Rightarrow> request \<Rightarrow> bool \<times> request" where
  "checkHash L h r =
     (if key h = [] then (True, r)
      else if Header_Get (ReqHeader r) Content_Type = application_json then checkJSONHash L h r
      else (case ReadAll (Body r) of
          Inl e \<Rightarrow> (False, r)
        | Inr body \<Rightarrow>
           (let r1 = r\<lparr>Body := byte_stream body\<rparr>;
                receivedHash = Header_Get (ReqHeader r) HashSHA256
            in if receivedHash = [] then
                 (let receivedHash = Header_Get (ReqHeader r) Hash_Header
                  in if receivedHash = [] then (True, r1)
                     else if receivedHash = ''none'' then (True, r1)
                     else (VerifyHash body (key h) receivedHash, r1))
               else (VerifyHash body (key h) receivedHash, r1))))"

definition verifyMetricHash :: "Handlers \<Rightarrow> Metrics \<Rightarrow> bool" where
  "verifyMetricHash h m =
     (if key h = [] then True
      else if Hash m = [] then False
      else if MType m = ''counter'' then
        (case Delta m of
           None \<Rightarrow> False
         | Some d \<Rightarrow> Hash m = CalculateHash (sprintf_d (ID m) (MType m) d) (key h))
      else if MType m = ''gauge'' then
        (case Value m of
           None \<Rightarrow> False
         | Some v \<Rightarrow> Hash m = CalculateHash (sprintf_f (ID m) (MType m) v) (key h))
      else False)"

section \<open>Text handlers\<close>

type_synonym handler = "request \<Rightarrow> writer \<Rightarrow> Handlers \<Rightarrow> writer \<times> Handlers"

definition UpdateHandler :: "golib \<Rightarrow> handler" where
  "UpdateHandler L r w h =
     (if \<not> fst (checkHash L h r) then (WriteHeader 400 w, h)
      else (let metricType = URLParam r ''type''; name = URLParam r ''name''; value = URLParam r ''value'' in
        if name = [] then (WriteHeader 404 w, h)
        else (let w1 = set_header Content_Type ''text/plain'' w in
          if metricType = Gauge then
            (case ParseFloat L value of
               None \<Rightarrow> (WriteHeader 400 w1, h)
             | Some v \<Rightarrow> (Write ''OK'' (WriteHeader 200 w1), h\<lparr>storage := UpdateGauge name v (storage h)\<rparr>))
          else if metricType = Counter then
            (case parse_int64 value of
               None \<Rightarrow> (WriteHeader 400 w1, h)
             | Some v \<Rightarrow> (Write ''OK'' (WriteHeader 200 w1), h\<lparr>storage := UpdateCounter name v (storage h)\<rparr>))
          else (WriteHeader 400 w1, h))))"

definition ValueHandler :: "golib \<Rightarrow> handler" where
  "ValueHandler L r w h =
     (let metricType = URLParam r ''type''; name = URLParam r ''name'' in
      if name = [] then (WriteHeader 404 w, h)
      else (let w1 = set_header Content_Type ''text/plain'' w in
        if metricType = Gauge then
          (case GetGauge name (storage h) of
             (Inl e, st) \<Rightarrow> (WriteHeader 404 w1, h\<lparr>storage := st\<rparr>)
           | (Inr value, st) \<Rightarrow> (Write (ShowFloat L value) (WriteHeader 200 w1), h\<lparr>storage := st\<rparr>))
        else if metricType = Counter then
          (case GetCounter name (storage h) of
             (Inl e, st) \<Rightarrow> (WriteHeader 404 w1, h\<lparr>storage := st\<rparr>)
           | (Inr value, st) \<Rightarrow> (Write (fmt_d value) (WriteHeader 200 w1), h\<lparr>storage := st\<rparr>))
        else (WriteHeader 400 w1, h)))"

definition IndexHandler :: "golib \<Rightarrow> handler" where
  "IndexHandler L r w h =
     (case GetAllGauges (storage h) of (gs, st1) \<Rightarrow>
      (case GetAllCounters st1 of (cs, st2) \<Rightarrow>
        (Write (IndexPage L gs cs) (WriteHeader 200 (set_header Content_Type ''text/html'' w)),
         h\<lparr>storage := st2\<rparr>)))"

definition PingHandler :: handler where
  "PingHandler r w h =
     (if \<not> IsAvailable (storage h) then (WriteHeader 500 w, h)
      else (case Ping (storage h) of
          (Some e, st) \<Rightarrow> (WriteHeader 500 w, h\<lparr>storage := st\<rparr>)
        | (None, st) \<Rightarrow> (WriteHeader 200 w, h\<lparr>storage := st\<rparr>)))"

section \<open>JSON handlers\<close>

text \<open>
  The tail both JSON handlers share: the status is sent before the reply is encoded, so that a
  reply that cannot be encoded (a gauge that is not a number) leaves 200 and an empty body.
\<close>

definition reply_json :: "golib \<Rightarrow> Handlers \<Rightarrow> Metrics \<Rightarrow> writer \<Rightarrow> writer" where
  "reply_json L h resp w =
     (let resp1 = addHashToMetrics h resp; w1 = WriteHeader 200 w
      in case MarshalMetric L resp1 of
           None \<Rightarrow> WriteHeader 500 w1
         | Some responseData \<Rightarrow> Write responseData w1)"

definition UpdateJSONHandler :: "golib \<Rightarrow> handler" where
  "UpdateJSONHandler L r w h =
     (let w1 = set_header Content_Type application_json w in
      if Header_Get (ReqHeader r) Content_Type \<noteq> application_json then (WriteHeader 400 w1, h)
      else (case checkHash L h r of (ok, r1) \<Rightarrow>
        if \<not> ok then (WriteHeader 400 w1, h)
        else (case DecodeMetric L (Body r1) of
           None \<Rightarrow> (WriteHeader 400 w1, h)
         | Some m \<Rightarrow>
            (let resp = zero_metric\<lparr>ID := ID m, MType := MType m\<rparr> in
             if MType m = ''gauge'' then
               (case Value m of
                  None \<Rightarrow> (WriteHeader 400 w1, h)
                | Some v \<Rightarrow>
                    (let h1 = h\<lparr>storage := UpdateGauge (ID m) v (storage h)\<rparr>
                     in (reply_json L h1 (resp\<lparr>Value := Value m\<rparr>) w1, h1)))
             else if MType m = ''counter'' then
               (case Delta m of
                  None \<Rightarrow> (WriteHeader 400 w1, h)
                | Some d \<Rightarrow>
                    (let st1 = UpdateCounter (ID m) d (storage h)
                     in case GetCounter (ID m) st1 of
                          (Inl e, st2) \<Rightarrow> (WriteHeader 500 w1, h\<lparr>storage := st2\<rparr>)
                        | (Inr v, st2) \<Rightarrow>
                            (let h2 = h\<lparr>storage := st2\<rparr>
                             in (reply_json L h2 (resp\<lparr>Delta := Some v\<rparr>) w1, h2))))
             else (WriteHeader 400 w1, h)))))"

definition ValueJSONHandler :: "golib \<Rightarrow> handler" where
  "ValueJSONHandler L r w h =
     (let w1 = set_header Content_Type application_json w in
      if Header_Get (ReqHeader r) Content_Type \<noteq> application_json then (WriteHeader 400 w1, h)
      else (case checkHash L h r of (ok, r1) \<Rightarrow>
        if \<not> ok then (WriteHeader 400 w1, h)
        else (case DecodeMetric L (Body r1) of
           None \<Rightarrow> (WriteHeader 400 w1, h)
         | Some m \<Rightarrow>
            (let resp = zero_metric\<lparr>ID := ID m, MType := MType m\<rparr> in
             if MType m = ''gauge'' then
               (case GetGauge (ID m) (storage h) of
                  (Inl e, st1) \<Rightarrow> (WriteHeader 404 w1, h\<lparr>storage := st1\<rparr>)
                | (Inr v, st1) \<Rightarrow>
                    (let h1 = h\<lparr>storage := st1\<rparr> in (reply_json L h1 (resp\<lparr>Value := Some v\<rparr>) w1, h1)))
             else if MType m = ''counter'' then
               (case GetCounter (ID m) (storage h) of
                  (Inl e, st1) \<Rightarrow> (WriteHeader 404 w1, h\<lparr>storage := st1\<rparr>)
                | (Inr v, st1) \<Rightarrow>
                    (let h1 = h\<lparr>storage := st1\<rparr> in (reply_json L h1 (resp\<lparr>Delta := Some v\<rparr>) w1, h1)))
             else (WriteHeader 400 w1, h)))))"

section \<open>Batches\<close>

text \<open>
  The loop that merges duplicates: the map is an association list from \<open>ID_MType\<close> to the
  metric; a counter that is there already is added to, anything else is replaced.
\<close>

definition metric_key :: "Metrics \<Rightarrow> string" where
  "metric_key m = ID m @ ''_'' @ MType m"

definition merge_metric :: "(string \<times> Metrics) list \<Rightarrow> Metrics \<Rightarrow> (string \<times> Metrics) list" where
  "merge_metric mm m =
     (let m1 = (case map_of mm (metric_key m) of
          None \<Rightarrow> m
        | Some existing \<Rightarrow>
            (if MType m = ''counter'' then
               (case (Delta m, Delta existing) of
                  (Some d, Some e) \<Rightarrow> m\<lparr>Delta := Some (e + d)\<rparr>
                | _ \<Rightarrow> m)
             else m))
      in AList.update (metric_key m) m1 mm)"

definition group_metrics :: "Metrics list \<Rightarrow> (string \<times> Metrics) list" where
  "group_metrics ms = foldl merge_metric [] ms"

type_synonym map_order = "(string \<times> Metrics) list \<Rightarrow> (string \<times> Metrics) list"

definition UpdatesHandler :: "golib \<Rightarrow> map_order \<Rightarrow> handler" where
  "UpdatesHandler L ord r w h =
     (let w1 = set_header Content_Type application_json w in
      if Header_Get (ReqHeader r) Content_Type \<noteq> application_json then (WriteHeader 400 w1, h)
      else (case DecodeBatch L (Body r) of
         None \<Rightarrow> (WriteHeader 400 w1, h)
       | Some metrics \<Rightarrow>
          if length metrics = 0 then (WriteHeader 400 w1, h)
          else if key h \<noteq> [] \<and> \<not> list_all (verifyMetricHash h) metrics then (WriteHeader 400 w1, h)
          else (let uniqueMetrics = map snd (ord (group_metrics metrics)) in
            case UpdateBatch uniqueMetrics (storage h) of
              (Some e, st1) \<Rightarrow> (WriteHeader 500 w1, h\<lparr>storage := st1\<rparr>)
            | (None, st1) \<Rightarrow> (WriteHeader 200 w1, h\<lparr>storage := st1\<rparr>))))"

section \<open>Merging duplicates\<close>

text \<open>The key of a well-formed metric determines its name and type.\<close>

lemma metric_key_inject:
  assumes "wf_metric m" and "wf_metric m'"
  shows "metric_key m = metric_key m' \<longleftrightarrow> ID m = ID m' \<and> MType m = MType m'"
proof -
  have "i @ ''_'' @ Gauge \<noteq> i' @ ''_'' @ Counter" for i i'
  proof
    assume "i @ ''_'' @ Gauge = i' @ ''_'' @ Counter"
    then have "last (i @ ''_'' @ Gauge) = last (i' @ ''_'' @ Counter)" by simp
    then show False by (simp add: Gauge_def Counter_def)
  qed
  then show ?thesis using assms
    unfolding wf_metric_def metric_key_def by (elim disjE conjE) (simp_all, metis)
qed

text \<open>
  The invariant of the loop: keys are distinct and belong to their well-formed metrics, and
  applying what has been collected is applying what has been read.
\<close>

definition group_inv :: "(string \<times> Metrics) list \<Rightarrow> bool" where
  "group_inv mm \<longleftrightarrow> distinct (map fst mm) \<and> (\<forall>k m. (k, m) \<in> set mm \<longrightarrow> wf_metric m \<and> k = metric_key m)"

abbreviation group_ops :: "(string \<times> Metrics) list \<Rightarrow> metric_op list" where
  "group_ops mm \<equiv> ops_of (map snd mm)"

lemma set_ops_of: "x \<in> set (ops_of ms) \<longleftrightarrow> (\<exists>m \<in> set ms. op_of m = Some x)"
  by (induction ms) (auto split: option.splits)

lemma op_key_eq:
  assumes "wf_metric m" and "wf_metric m'" and "op_of m = Some x" and "op_of m' = Some x'"
  shows "op_key x = op_key x' \<longleftrightarrow> metric_key m = metric_key m'"
  using assms by (simp add: metric_key_inject op_of_key)

lemma group_ops_keys:
  assumes "group_inv (us @ (k, e) # vs)" and "op_of e = Some x"
  shows "\<forall>y \<in> set (group_ops vs). op_key x \<noteq> op_key y"
proof
  fix y
  assume "y \<in> set (group_ops vs)"
  then obtain k' m where m: "(k', m) \<in> set vs" "op_of m = Some y" by (auto simp: set_ops_of)
  have "k \<notin> fst ` set vs" using assms(1) by (simp add: group_inv_def)
  then have "k \<noteq> k'" using m(1) by (metis fst_conv image_eqI)
  moreover have "k = metric_key e" "k' = metric_key m" "wf_metric e" "wf_metric m"
    using assms(1) m(1) by (auto simp: group_inv_def)
  ultimately show "op_key x \<noteq> op_key y" using op_key_eq [OF _ _ assms(2) m(2)] by simp
qed

lemma group_distinct:
  assumes "group_inv mm"
  shows "distinct (map op_key (group_ops mm))"
  using assms
proof (induction mm)
  case (Cons p mm)
  obtain k e where p: "p = (k, e)" by force
  have "wf_metric e" and inv: "group_inv mm" using Cons.prems p by (auto simp: group_inv_def)
  then obtain x where x: "op_of e = Some x" by (auto simp: wf_metric_op)
  have "op_key x \<notin> op_key ` set (group_ops mm)"
    using group_ops_keys [of "[]" k e mm x] Cons.prems p x by auto
  with Cons.IH [OF inv] show ?case by (simp add: p x)
qed simp

text \<open>The value that replaces an entry does what the entry and then the metric would do.\<close>

definition combine :: "Metrics \<Rightarrow> Metrics \<Rightarrow> Metrics" where
  "combine e m = (if MType m = ''counter'' then
      (case (Delta m, Delta e) of (Some d, Some e) \<Rightarrow> m\<lparr>Delta := Some (e + d)\<rparr> | _ \<Rightarrow> m) else m)"

lemma combine_op:
  assumes "wf_metric e" and "wf_metric m" and "metric_key e = metric_key m"
    and "op_of e = Some y" and "op_of m = Some x"
  shows "wf_metric (combine e m)" and "metric_key (combine e m) = metric_key m"
    and "\<exists>z. op_of (combine e m) = Some z \<and> apply_op z a = apply_op x (apply_op y a)"
proof -
  have "ID e = ID m" "MType e = MType m" using assms(1-3) by (simp_all add: metric_key_inject)
  then show "wf_metric (combine e m)" and "metric_key (combine e m) = metric_key m"
    and "\<exists>z. op_of (combine e m) = Some z \<and> apply_op z a = apply_op x (apply_op y a)"
    using assms
    by (auto simp: combine_def wf_metric_def op_of_def metric_key_def Gauge_def Counter_def add.assoc
        split: if_splits)
qed

lemma update_append: "k \<notin> fst ` set us \<Longrightarrow> AList.update k v (us @ (k, e) # vs) = us @ (k, v) # vs"
  by (induction us) auto

lemma update_new: "k \<notin> fst ` set mm \<Longrightarrow> AList.update k v mm = mm @ [(k, v)]"
  by (induction mm) auto

lemma merge_step:
  assumes "group_inv mm" and "wf_metric m" and x: "op_of m = Some x"
  shows "group_inv (merge_metric mm m)
    \<and> apply_ops (group_ops (merge_metric mm m)) a = apply_op x (apply_ops (group_ops mm) a)"
proof (cases "map_of mm (metric_key m)")
  case None
  then have new: "metric_key m \<notin> fst ` set mm" by (simp add: map_of_eq_None_iff)
  have eq: "merge_metric mm m = mm @ [(metric_key m, m)]"
    using None by (simp add: merge_metric_def update_new [OF new])
  show ?thesis using assms new by (auto simp: eq group_inv_def)
next
  case (Some e)
  let ?k = "metric_key m"
  from map_of_SomeD [OF Some] obtain us vs where mm: "mm = us @ (?k, e) # vs" by (meson split_list)
  have us: "?k \<notin> fst ` set us" using assms(1) mm by (auto simp: group_inv_def)
  have eq: "merge_metric mm m = us @ (?k, combine e m) # vs"
    using Some update_append [OF us] by (simp add: merge_metric_def combine_def mm)
  have e: "wf_metric e" "metric_key e = ?k" using assms(1) mm by (auto simp: group_inv_def)
  then obtain y where y: "op_of e = Some y" by (auto simp: wf_metric_op)
  note c = combine_op [OF e(1) assms(2) e(2) y x]
  obtain z where z: "op_of (combine e m) = Some z"
    "apply_op z (apply_ops (group_ops us) a) = apply_op x (apply_op y (apply_ops (group_ops us) a))"
    using c(3) by blast
  have "op_key x = op_key y" using op_key_eq [OF assms(2) e(1) x y] e(2) by simp
  then have "apply_op x (apply_ops (group_ops vs) b) = apply_ops (group_ops vs) (apply_op x b)" for b
    using group_ops_keys [OF assms(1) [unfolded mm] y] by (intro apply_ops_commute) simp
  then have "apply_ops (group_ops (merge_metric mm m)) a = apply_op x (apply_ops (group_ops mm) a)"
    by (simp add: eq [unfolded mm] mm z y)
  moreover have "group_inv (merge_metric mm m)" using assms(1) c(1,2) by (auto simp: eq [unfolded mm] mm group_inv_def)
  ultimately show ?thesis by simp
qed

lemma group_metrics_fold:
  assumes "group_inv mm" and "list_all wf_metric ms"
  shows "group_inv (foldl merge_metric mm ms)
    \<and> apply_ops (group_ops (foldl merge_metric mm ms)) a = apply_ops (ops_of ms) (apply_ops (group_ops mm) a)"
  using assms
proof (induction ms arbitrary: mm)
  case (Cons m ms)
  then obtain x where x: "op_of m = Some x" by (auto simp: wf_metric_op)
  then show ?case using Cons merge_step [OF Cons.prems(1) _ x, of a] by simp
qed simp

lemma group_metrics_sound:
  assumes "list_all wf_metric ms"
  shows "group_inv (group_metrics ms)"
    and "apply_ops (group_ops (group_metrics ms)) a = apply_ops (ops_of ms) a"
proof -
  have "group_inv []" by (simp add: group_inv_def)
  from group_metrics_fold [OF this assms, of a] show "group_inv (group_metrics ms)"
    and "apply_ops (group_ops (group_metrics ms)) a = apply_ops (ops_of ms) a"
    by (simp_all add: group_metrics_def)
qed

text \<open>Any iteration order of the map gives the same result.\<close>

lemma group_any_order:
  assumes "list_all wf_metric ms" and "mset mm = mset (group_metrics ms)"
  shows "apply_ops (group_ops mm) a = apply_ops (ops_of ms) a" and "list_all wf_metric (map snd mm)"
proof -
  note g = group_metrics_sound [OF assms(1)]
  have "mset (group_ops mm) = mset (group_ops (group_metrics ms))"
  proof -
    have "mset (ops_of ns) = mset (ops_of ns')" if "mset ns = mset ns'" for ns ns'
      using that by (simp add: ops_of_def List.map_filter_def)
    then show ?thesis using assms(2) by (metis mset_map)
  qed
  then have "apply_ops (group_ops mm) a = apply_ops (group_ops (group_metrics ms)) a"
    using group_distinct [OF g(1)] by (metis apply_ops_permute)
  with g(2) show "apply_ops (group_ops mm) a = apply_ops (ops_of ms) a" by simp
  have "set mm = set (group_metrics ms)" using assms(2) by (metis set_mset_mset)
  then show "list_all wf_metric (map snd mm)" using g(1) by (auto simp: list_all_iff group_inv_def)
qed

section \<open>What a hash check accepts\<close>

lemma verifyMetricHash_iff:
  "verifyMetricHash h m \<longleftrightarrow>
     key h = [] \<or> wf_metric m \<and> Hash m = CalculateHash (signed_text m) (key h)"
  by (auto simp: verifyMetricHash_def wf_metric_def signed_text_def Gauge_def Counter_def split: option.splits)

text \<open>A check reads the body and puts it back, unless reading fails, and then it rejects.\<close>

lemma checkHash_request:
  assumes "checkHash L h r = (True, r1)"
  shows "ReqHeader r1 = ReqHeader r \<and> URLParam r1 = URLParam r \<and> Body r1 = Body r"
  using assms
  by (auto simp: checkHash_def checkJSONHash_def Let_def split: sum.splits option.splits if_splits)

lemma addHash_verifies:
  assumes "wf_metric m"
  shows "verifyMetricHash h (addHashToMetrics h m)"
  using assms
  by (auto simp: verifyMetricHash_def addHashToMetrics_def wf_metric_def Gauge_def Counter_def Let_def
      split: option.splits)

lemma verifyMetricHash_store: "verifyMetricHash (h\<lparr>storage := s\<rparr>) m = verifyMetricHash h m"
  and addHashToMetrics_store: "addHashToMetrics (h\<lparr>storage := s\<rparr>) m = addHashToMetrics h m"
  by (simp_all add: verifyMetricHash_def addHashToMetrics_def Let_def split: option.splits)

lemma addHash_fields [simp]:
  "ID (addHashToMetrics h m) = ID m" "MType (addHashToMetrics h m) = MType m"
  "Delta (addHashToMetrics h m) = Delta m" "Value (addHashToMetrics h m) = Value m"
  by (auto simp: addHashToMetrics_def Let_def)

section \<open>Reading never changes the data\<close>

lemma db_query_table: "db_query q s = (r, s') \<Longrightarrow> table (wld s') = table (wld s)"
  by (cases "next_call (wld s)")
    (auto simp: db_query_def Let_def split: if_splits fate.splits dest: next_call_props(3))

lemma query_row_table: "query_row q col s = (r, s') \<Longrightarrow> table (fst (wld s')) = table (fst (wld s))"
  by (cases "db_query q \<lparr>now = now s, wld = fst (wld s)\<rparr>")
    (auto simp: query_row_def split: sum.splits list.splits option.splits dest!: db_query_table)

lemma get_by_query_table: "table (wld (snd (get_by_query msg q col s))) = table (wld s)"
proof -
  have "table (fst (wld (snd (Retry isc ctx cfg sc (query_row q col) \<lparr>now = now s, wld = (wld s, v)\<rparr>)))) = table (wld s)"
    for isc ctx cfg sc v
    by (rule Retry_inv [where I = "\<lambda>u. table (fst (wld u)) = table (wld s)"])
      (auto dest: query_row_table)
  from this [of "class08 (wld s)" "WithTimeout (now s) (10 * Second)" DefaultRetryConfig "sched_at (wld s) (now s)" 0]
  show ?thesis
    by (auto simp: get_by_query_def Let_def split: prod.splits outcome.splits option.splits)
qed

lemma reads_keep [simp]:
  "store_abs (snd (GetGauge n s)) = store_abs s" "store_abs (snd (GetCounter n s)) = store_abs s"
  by (cases s; simp add: DB_Get_query db_abs_def get_by_query_table)+

lemma all_reads_keep [simp]:
  "store_abs (snd (GetAllGauges s)) = store_abs s" "store_abs (snd (GetAllCounters s)) = store_abs s"
  by (cases s; auto simp: DB_GetAllGauges_def DB_GetAllCounters_def db_abs_def
      split: prod.splits sum.splits dest: db_query_table)+

lemma ping_keeps: "store_abs (snd (Ping s)) = store_abs s"
  by (cases s) (auto simp: DB_Ping_def db_exec_def db_abs_def Let_def next_call_def split: list.splits fate.splits)

lemma reads_keep_eq:
  "GetGauge n s = (rg, s') \<Longrightarrow> store_abs s' = store_abs s"
  "GetCounter n s = (rc, s') \<Longrightarrow> store_abs s' = store_abs s"
  "GetAllGauges s = (mg, s') \<Longrightarrow> store_abs s' = store_abs s"
  "GetAllCounters s = (mc, s') \<Longrightarrow> store_abs s' = store_abs s"
  "Ping s = (p, s') \<Longrightarrow> store_abs s' = store_abs s"
  using reads_keep all_reads_keep ping_keeps by (metis snd_conv)+

section \<open>A client error changes nothing\<close>

definition handlers :: "golib \<Rightarrow> map_order \<Rightarrow> handler list" where
  "handlers L ord = [UpdateHandler L, ValueHandler L, IndexHandler L, PingHandler,
     UpdateJSONHandler L, ValueJSONHandler L, UpdatesHandler L ord]"

definition client_error :: "nat \<Rightarrow> bool" where
  "client_error c \<longleftrightarrow> 400 \<le> c \<and> c < 500"

lemma reply_json_status [simp]: "status w = None \<Longrightarrow> status_of (reply_json L h m w) = 200"
  by (simp add: reply_json_def Let_def split: option.splits)

lemma UpdateHandler_client_error:
  "fresh w \<Longrightarrow> UpdateHandler L r w h = (w', h') \<Longrightarrow> client_error (status_of w') \<Longrightarrow> h' = h"
  by (auto simp: UpdateHandler_def client_error_def Let_def split: if_splits option.splits)

lemma ValueHandler_keeps: "ValueHandler L r w h = (w', h') \<Longrightarrow> store_abs (storage h') = store_abs (storage h)"
  by (auto simp: ValueHandler_def Let_def split: if_splits prod.splits sum.splits dest: reads_keep_eq)

lemma IndexHandler_keeps: "IndexHandler L r w h = (w', h') \<Longrightarrow> store_abs (storage h') = store_abs (storage h)"
  by (auto simp: IndexHandler_def split: prod.splits dest!: reads_keep_eq)

lemma PingHandler_keeps: "PingHandler r w h = (w', h') \<Longrightarrow> store_abs (storage h') = store_abs (storage h)"
  by (auto simp: PingHandler_def split: if_splits prod.splits option.splits dest!: reads_keep_eq)

lemma ValueJSONHandler_keeps:
  "ValueJSONHandler L r w h = (w', h') \<Longrightarrow> store_abs (storage h') = store_abs (storage h)"
  by (auto simp: ValueJSONHandler_def Let_def split: if_splits prod.splits option.splits sum.splits dest!: reads_keep_eq)

lemma UpdateJSONHandler_client_error:
  "fresh w \<Longrightarrow> UpdateJSONHandler L r w h = (w', h') \<Longrightarrow> client_error (status_of w') \<Longrightarrow> h' = h"
  by (auto simp: UpdateJSONHandler_def client_error_def Let_def split: if_splits prod.splits option.splits sum.splits)

lemma UpdatesHandler_client_error:
  "fresh w \<Longrightarrow> UpdatesHandler L ord r w h = (w', h') \<Longrightarrow> client_error (status_of w') \<Longrightarrow> h' = h"
  by (auto simp: UpdatesHandler_def client_error_def Let_def split: if_splits prod.splits option.splits)

lemma handler_client_error_keeps:
  assumes "f \<in> set (handlers L ord)" and "fresh w" and "client_error (status_of (fst (f r w h)))"
  shows "store_abs (storage (snd (f r w h))) = store_abs (storage h)"
proof -
  obtain w' h' where eq: "f r w h = (w', h')" by force
  have e: "client_error (status_of w')" using assms(3) eq by simp
  consider "f = UpdateHandler L" | "f = ValueHandler L" | "f = IndexHandler L" | "f = PingHandler"
    | "f = UpdateJSONHandler L" | "f = ValueJSONHandler L" | "f = UpdatesHandler L ord"
    using assms(1) by (auto simp: handlers_def)
  then have "store_abs (storage h') = store_abs (storage h)"
    using eq e assms(2) UpdateHandler_client_error UpdateJSONHandler_client_error UpdatesHandler_client_error
      ValueHandler_keeps IndexHandler_keeps PingHandler_keeps ValueJSONHandler_keeps
    by cases metis+
  with eq show ?thesis by simp
qed

section \<open>A batch is carried out\<close>

lemma UpdatesHandler_applies:
  assumes "Header_Get (ReqHeader r) Content_Type = application_json"
    and "DecodeBatch L (Body r) = Some ms" and "ms \<noteq> []" and "list_all wf_metric ms"
    and "key h = [] \<or> list_all (verifyMetricHash h) ms"
    and "mset (ord (group_metrics ms)) = mset (group_metrics ms)"
    and "store_ok (storage h)" and "store_accepts (storage h) (ops_of (map snd (ord (group_metrics ms))))"
    and "fresh w"
  shows "status_of (fst (UpdatesHandler L ord r w h)) = 200
    \<and> store_abs (storage (snd (UpdatesHandler L ord r w h))) = apply_ops (ops_of ms) (store_abs (storage h))"
proof -
  let ?u = "map snd (ord (group_metrics ms))"
  note g = group_any_order [OF assms(4,6)]
  have "fst (UpdateBatch ?u (storage h)) = None
    \<and> store_abs (snd (UpdateBatch ?u (storage h))) = apply_ops (ops_of ms) (store_abs (storage h))"
    using st.batch_result [OF assms(7) _ assms(8)] g by (simp add: list_all_iff)
  then show ?thesis
    using assms by (cases "UpdateBatch ?u (storage h)") (auto simp: UpdatesHandler_def Let_def)
qed

section \<open>Sample requests\<close>

definition sample_request :: "string \<Rightarrow> (string \<times> string) list \<Rightarrow> bytes \<Rightarrow> request" where
  "sample_request ct ps b = \<lparr>Method = ''POST'', Path = [], URLParam = (\<lambda>k. case map_of ps k of None \<Rightarrow> [] | Some v \<Rightarrow> v),
     ReqHeader = Header_Set Content_Type ct Map.empty, Body = byte_stream b, ContentLength = int (length b)\<rparr>"

lemma sample_request_simps [simp]:
  "URLParam (sample_request ct ps b) k = (case map_of ps k of None \<Rightarrow> [] | Some v \<Rightarrow> v)"
  "ReqHeader (sample_request ct ps b) = Header_Set Content_Type ct Map.empty"
  "Body (sample_request ct ps b) = byte_stream b"
  by (simp_all add: sample_request_def)

section \<open>Properties\<close>

text \<open>
  C13: merging the duplicates of a batch loses nothing: for well-formed metrics, in whatever
  order the map is then iterated, the merged batch does exactly what the metrics would do one
  by one in the order of the request, and it has at most one metric per name and type.
\<close>

theorem merged_batch_is_sequential:
  assumes "list_all wf_metric ms" and "mset mm = mset (group_metrics ms)"
  shows "apply_ops (ops_of (map snd mm)) a = apply_ops (ops_of ms) a
    \<and> distinct (map op_key (ops_of (map snd (group_metrics ms))))"
  using group_any_order(1) [OF assms] group_distinct [OF group_metrics_sound(1) [OF assms(1)]] by simp

theorem merged_batch_is_sequential_witness:
  "apply_ops (ops_of (map snd (rev (group_metrics [sample_counter, sample_gauge, sample_counter])))) \<lparr>g_of = Map.empty, c_of = Map.empty\<rparr>
    = \<lparr>g_of = [''g'' \<mapsto> f64_one_half], c_of = [''c'' \<mapsto> 14]\<rparr>"
  by (subst merged_batch_is_sequential [THEN conjunct1, of "[sample_counter, sample_gauge, sample_counter]"])
    (simp_all add: wf_metric_def op_of_def sample_counter_def sample_gauge_def Gauge_def Counter_def)

text \<open>
  C1: a batch request is carried out completely. If the request is JSON, its metrics are well
  formed and signed when there is a key, and the store accepts them, then the answer is 200
  and the store has applied every metric in the order of the request, for every iteration
  order of the map of duplicates.
\<close>

theorem updates_handler_applies_all:
  assumes "Header_Get (ReqHeader r) Content_Type = application_json"
    and "DecodeBatch L (Body r) = Some ms" and "ms \<noteq> []" and "list_all wf_metric ms"
    and "key h = [] \<or> list_all (verifyMetricHash h) ms"
    and "mset (ord (group_metrics ms)) = mset (group_metrics ms)"
    and "store_ok (storage h)" and "store_accepts (storage h) (ops_of (map snd (ord (group_metrics ms))))"
    and "fresh w"
  shows "status_of (fst (UpdatesHandler L ord r w h)) = 200
    \<and> store_abs (storage (snd (UpdatesHandler L ord r w h))) = apply_ops (ops_of ms) (store_abs (storage h))"
  using assms by (rule UpdatesHandler_applies)

theorem updates_handler_applies_all_witness:
  "status_of (fst (UpdatesHandler sample_lib rev (sample_request application_json [] sample_batch_text) new_writer
      (NewHandlers (InDatabase (sample_db [sample_row ''c'' 3 0] [])) []))) = 200"
  by (rule updates_handler_applies_all [where ms = "[sample_counter, sample_gauge]", THEN conjunct1])
    (simp_all add: NewHandlers_def sample_lib_def wf_metric_def op_of_def sample_counter_def sample_gauge_def
      group_metrics_def merge_metric_def metric_key_def op_fits_def in_int64_def Gauge_def Counter_def)

text \<open>
  C7: with a key, a batch is accepted only if every metric in it is well formed and carries the
  HMAC of its own text; one that does not makes the answer 400, and nothing is changed. In
  particular a metric without a hash is refused.
\<close>

theorem unsigned_batch_rejected:
  assumes "key h \<noteq> []" and "Header_Get (ReqHeader r) Content_Type = application_json"
    and "DecodeBatch L (Body r) = Some ms" and "m \<in> set ms" and "fresh w"
    and "\<not> wf_metric m \<or> Hash m \<noteq> CalculateHash (signed_text m) (key h)"
  shows "status_of (fst (UpdatesHandler L ord r w h)) = 400 \<and> snd (UpdatesHandler L ord r w h) = h"
proof -
  have "\<not> list_all (verifyMetricHash h) ms"
    using assms(1,4,6) by (auto simp: list_all_iff verifyMetricHash_iff)
  with assms show ?thesis by (auto simp: UpdatesHandler_def Let_def)
qed

theorem unsigned_batch_rejected_witness:
  "status_of (fst (UpdatesHandler sample_lib id (sample_request application_json [] sample_batch_text) new_writer
      (NewHandlers (InMemory NewMemStorage) ''secret''))) = 400"
  by (rule unsigned_batch_rejected [where ms = "[sample_counter, sample_gauge]" and m = sample_counter, THEN conjunct1])
    (simp_all add: NewHandlers_def sample_lib_def sample_counter_def)



text \<open>
  C23: the reply to a JSON counter update carries the accumulated value, and with a key its
  hash passes the server's own check of a metric.
\<close>

theorem json_counter_reply:
  assumes "Header_Get (ReqHeader r) Content_Type = application_json" and "checkHash L h r = (True, rq)"
    and "DecodeMetric L (Body rq) = Some m" and "MType m = ''counter''" and "Delta m = Some d"
    and "store_ok (storage h)" and "store_accepts (storage h) [AddCounter (ID m) d]" and "fresh w"
  shows "\<exists>m'. verifyMetricHash h m' \<and> ID m' = ID m \<and> Value m' = None
    \<and> Delta m' = Some (go_get (c_of (store_abs (storage h))) (ID m) + d)
    \<and> status_of (fst (UpdateJSONHandler L r w h)) = 200
    \<and> rbody (fst (UpdateJSONHandler L r w h)) = (case MarshalMetric L m' of None \<Rightarrow> [] | Some b \<Rightarrow> b)"
proof -
  let ?c = "go_get (c_of (store_abs (storage h))) (ID m) + d" and ?st = "UpdateCounter (ID m) d (storage h)"
  obtain st2 where get: "GetCounter (ID m) ?st = (Inr ?c, st2)"
    using st.read_after_add [OF assms(6,7)] by (cases "GetCounter (ID m) ?st") simp
  let ?h = "h\<lparr>storage := st2\<rparr>"
  let ?m = "addHashToMetrics ?h (zero_metric\<lparr>ID := ID m, MType := MType m, Delta := Some ?c\<rparr>)"
  have "verifyMetricHash h ?m"
    unfolding verifyMetricHash_store [where h = h and s = st2, symmetric]
    by (rule addHash_verifies) (simp add: assms(4) wf_metric_def Counter_def)
  moreover have "fst (UpdateJSONHandler L r w h)
      = reply_json L ?h (zero_metric\<lparr>ID := ID m, MType := MType m, Delta := Some ?c\<rparr>) (set_header Content_Type application_json w)"
    using assms get by (simp add: UpdateJSONHandler_def Let_def)
  ultimately show ?thesis
    using assms(8) by (intro exI [of _ ?m]) (simp add: reply_json_def Let_def zero_metric_def split: option.splits)
qed

theorem json_counter_reply_witness:
  "status_of (fst (UpdateJSONHandler sample_lib (sample_request application_json [] sample_counter_text) new_writer
      (NewHandlers (InMemory NewMemStorage) ''secret''))) = 200"
proof -
  let ?r = "sample_request application_json [] sample_counter_text" and ?h = "NewHandlers (InMemory NewMemStorage) ''secret''"
  have "checkHash sample_lib ?h ?r = (True, ?r)"
    by (simp add: checkHash_def checkJSONHash_def NewHandlers_def sample_request_def)
  then show ?thesis
    using json_counter_reply [of ?r sample_lib ?h ?r sample_counter 7 new_writer]
    by (auto simp: NewHandlers_def)
qed

text \<open>
  A reply that cannot be encoded goes out as 200 with an empty body: the status is sent
  before the encoding is tried, so the later WriteHeader(500) has no effect. This happens for
  a gauge that is not a finite number.
\<close>

theorem unencodable_reply_is_empty_200:
  assumes "Header_Get (ReqHeader r) Content_Type = application_json" and "checkHash L h r = (True, rq)"
    and "DecodeMetric L (Body rq) = Some m" and "MType m = ''gauge''"
    and "GetGauge (ID m) (storage h) = (Inr v, st)" and "fresh w"
    and "MarshalMetric L (addHashToMetrics h (zero_metric\<lparr>ID := ID m, MType := MType m, Value := Some v\<rparr>)) = None"
  shows "status_of (fst (ValueJSONHandler L r w h)) = 200 \<and> rbody (fst (ValueJSONHandler L r w h)) = []"
  using assms by (simp add: ValueJSONHandler_def reply_json_def Let_def addHashToMetrics_store)

theorem unencodable_reply_is_empty_200_witness:
  "status_of (fst (ValueJSONHandler sample_lib (sample_request application_json [] sample_query_text) new_writer
      (NewHandlers (InMemory \<lparr>gauges = [''g'' \<mapsto> f64_NaN], counters = Map.empty\<rparr>) []))) = 200"
proof -
  let ?r = "sample_request application_json [] sample_query_text"
    and ?st = "InMemory \<lparr>gauges = [''g'' \<mapsto> f64_NaN], counters = Map.empty\<rparr>"
  have "map_of sample_codec (zero_metric\<lparr>ID := ''g'', MType := ''gauge'', Value := Some f64_NaN\<rparr>) = None"
    by (simp add: sample_codec_def sample_gauge_def sample_counter_def sample_query_def zero_metric_def
        f64_NaN_def f64_one_half_def)
  then show ?thesis
    using unencodable_reply_is_empty_200 [of ?r sample_lib "NewHandlers ?st []" ?r sample_query f64_NaN ?st new_writer]
    by (simp add: NewHandlers_def checkHash_def Mem_GetGauge_def addHashToMetrics_def)
qed

text \<open>
  What the hash check of a request that is not JSON accepts when there is a key: exactly
  the requests whose body can be read and whose HashSHA256 header (Hash if that is empty) is
  the HMAC of the body, or is missing, or is the word none in the Hash header.
\<close>

theorem text_hash_check:
  assumes "key h \<noteq> []" and "Header_Get (ReqHeader r) Content_Type \<noteq> application_json"
  shows "fst (checkHash L h r) \<longleftrightarrow> (\<exists>b. Body r = byte_stream b \<and>
    (let h1 = Header_Get (ReqHeader r) HashSHA256; h2 = Header_Get (ReqHeader r) Hash_Header in
      if h1 \<noteq> [] then h1 = CalculateHash b (key h)
      else h2 = [] \<or> h2 = ''none'' \<or> h2 = CalculateHash b (key h)))"
proof (cases "ReadAll (Body r)")
  case (Inl e)
  then have "Body r \<noteq> byte_stream b" for b by auto
  with Inl assms show ?thesis by (simp add: checkHash_def)
next
  case (Inr b)
  then show ?thesis using assms by (auto simp: checkHash_def Let_def VerifyHash_iff)
qed

theorem text_hash_check_witness:
  "\<not> fst (checkHash sample_lib (NewHandlers (InMemory NewMemStorage) ''secret'')
      ((sample_request ''text/plain'' [] ''abc'')\<lparr>ReqHeader := Header_Set HashSHA256 ''none'' Map.empty\<rparr>))"
proof -
  let ?r = "(sample_request ''text/plain'' [] ''abc'')\<lparr>ReqHeader := Header_Set HashSHA256 ''none'' Map.empty\<rparr>"
  have "length (''none'' :: string) \<noteq> length (CalculateHash b ''secret'')" for b by (simp add: CalculateHash_length)
  then have "''none'' \<noteq> CalculateHash b ''secret''" for b by metis
  then show ?thesis
    using text_hash_check [of "NewHandlers (InMemory NewMemStorage) ''secret''" ?r sample_lib]
    by (simp add: NewHandlers_def Let_def application_json_def)
qed

text \<open>
  An update the database never received is still answered with 200: with four calls lost
  to a connection error, UpdateHandler replies OK and the table is unchanged, because the
  store only logs the error.
\<close>

theorem lost_update_answers_ok:
  "let c = \<lparr>took = 0, fate_of = LostBefore (PgErr ''08006'' ''gone'')\<rparr>; cs = [c, c, c, c];
       (w, h) = UpdateHandler sample_lib
         (sample_request ''text/plain'' [(''type'', ''counter''), (''name'', ''c''), (''value'', ''5'')] []) new_writer
         (NewHandlers (InDatabase (sample_db [sample_row ''c'' 3 0] cs)) [])
   in status_of w = 200 \<and> rbody w = ''OK'' \<and> store_abs (storage h) = \<lparr>g_of = Map.empty, c_of = [''c'' \<mapsto> 3]\<rparr>"
proof -
  let ?c = "\<lparr>took = 0, fate_of = LostBefore (PgErr ''08006'' ''gone'')\<rparr>"
  let ?cs = "[?c, ?c, ?c, ?c]"
  have p: "parse_int64 ''5'' = Some 5"
    by (simp add: parse_int64_def parse_nat_def is_digit_def digit_val_def)
  have "table (wld (DB_UpdateCounter ''c'' 5 (sample_db [sample_row ''c'' 3 0] ?cs))) = [sample_row ''c'' 3 0]"
    by (simp add: sample_run_simps DB_UpdateCounter_def sql_counter_def)
  then show ?thesis
    using p by (simp add: UpdateHandler_def NewHandlers_def checkHash_def Gauge_def Counter_def db_abs_def new_writer_def
        commit_header_def WriteHeader_def Write_def set_header_def status_of_def Let_def)
qed

text \<open>
  The key of the map of duplicates does not separate the name from the type: a metric
  \<open>a\<close> of the unknown type \<open>b_gauge\<close> and a gauge \<open>a_b\<close> share a key, so the first, which alone
  makes the batch fail, is dropped without an error.
\<close>

theorem batch_key_collision:
  "let bad = \<lparr>ID = ''a'', MType = ''b_gauge'', Delta = None, Value = None, Hash = []\<rparr>;
       good = \<lparr>ID = ''a_b'', MType = ''gauge'', Delta = None, Value = Some 1, Hash = []\<rparr>
   in fst (UpdateBatch (map snd (group_metrics [bad, good])) (InMemory NewMemStorage)) = None
    \<and> fst (UpdateBatch (map snd (group_metrics [bad])) (InMemory NewMemStorage)) \<noteq> None"
  by (simp add: Let_def group_metrics_def merge_metric_def metric_key_def Mem_UpdateBatch_def)

end
