(* ===== verification/RSA.thy ===== *)
theory RSA
  imports GoFloat
begin

text \<open>
  What the program uses of package crypto/rsa: keys, encryption and decryption with PKCS #1 v1.5
  padding. A key with distinct prime factors and matching exponents decrypts what it encrypts;
  this is proved from Fermat's little theorem, for any number of factors. Keys below 1024 bits
  and exponents below 2 are refused, as by the library of the Go version the module names.
\<close>

section \<open>Primes\<close>

definition is_prime :: "nat \<Rightarrow> bool" where
  "is_prime p \<longleftrightarrow> 1 < p \<and> (\<forall>d. d dvd p \<longrightarrow> d = 1 \<or> d = p)"

lemma prime_coprime:
  assumes "is_prime p" and "\<not> p dvd a"
  shows "coprime p a"
proof (rule coprimeI)
  fix c assume "c dvd p" and "c dvd a"
  then show "is_unit c" using assms by (auto simp: is_prime_def)
qed

lemma primes_coprime:
  assumes "is_prime p" and "is_prime q" and "p \<noteq> q"
  shows "coprime p q"
  using assms by (intro prime_coprime) (auto simp: is_prime_def)

section \<open>Fermat's little theorem\<close>

lemma prime_dvd_choose:
  assumes "is_prime p" and "0 < k" and "k < p"
  shows "p dvd (p choose k)"
proof -
  obtain j where k: "k = Suc j" using assms(2) by (cases k) auto
  obtain n where p: "p = Suc n" using assms(3) by (cases p) auto
  have "k * (p choose k) = p * (n choose j)"
    unfolding k p by (rule Suc_times_binomial)
  then have "p dvd k * (p choose k)" by simp
  moreover have "coprime p k" using assms by (intro prime_coprime) (auto dest: dvd_imp_le)
  ultimately show ?thesis by (simp add: coprime_dvd_mult_right_iff)
qed

lemma fermat:
  assumes "is_prime p"
  shows "a ^ p mod p = a mod p"
proof (induction a)
  case 0
  then show ?case using assms by (simp add: is_prime_def power_0_left)
next
  case (Suc a)
  obtain n where p: "p = Suc n" using assms by (cases p) (auto simp: is_prime_def)
  let ?f = "\<lambda>k. (p choose k) * a ^ k"
  have "Suc a ^ p = (\<Sum>k\<le>p. ?f k)"
    using binomial [of a 1 p] by simp
  also have "\<dots> = (\<Sum>k\<in>{0<..<p}. ?f k) + (1 + a ^ p)"
  proof -
    have "{..p} = insert 0 (insert p {0<..<p})" using p by auto
    then show ?thesis using p by (simp add: add.commute)
  qed
  finally have split: "Suc a ^ p = (\<Sum>k\<in>{0<..<p}. ?f k) + (1 + a ^ p)" .
  have "p dvd (\<Sum>k\<in>{0<..<p}. ?f k)"
    using prime_dvd_choose [OF assms] by (intro dvd_sum dvd_mult2) auto
  then have "Suc a ^ p mod p = (1 + a ^ p) mod p" unfolding split by (metis dvd_eq_mod_eq_0 mod_add_left_eq add_0)
  also have "\<dots> = (1 + a) mod p" using Suc by (metis mod_add_right_eq)
  finally show ?case by simp
qed

lemma fermat_exponent:
  assumes "is_prime p" and "x mod (p - 1) = 1 mod (p - 1)" and "0 < x"
  shows "a ^ x mod p = a mod p"
proof -
  have step: "a ^ (1 + k * (p - 1)) mod p = a mod p" for k
  proof (induction k)
    case (Suc k)
    have "a ^ (1 + Suc k * (p - 1)) = a ^ (p - 1) * a ^ (1 + k * (p - 1))" by (simp add: power_add)
    then have "a ^ (1 + Suc k * (p - 1)) mod p = (a ^ (p - 1) * a) mod p" using Suc by (metis mod_mult_right_eq)
    also have "a ^ (p - 1) * a = a ^ p" using assms(1) by (cases p) (auto simp: is_prime_def)
    finally show ?case using fermat [OF assms(1)] by simp
  qed simp
  have "\<exists>k. x = 1 + k * (p - 1)"
  proof -
    have "1 \<le> x" using assms(3) by simp
    from mod_eq_dvd_iff_nat [OF this, of "p - 1"] assms(2) have "(p - 1) dvd x - 1" by blast
    then show ?thesis using assms(3) by (metis Suc_diff_1 dvd_div_mult_self plus_1_eq_Suc)
  qed
  with step show ?thesis by auto
qed

section \<open>Several prime factors\<close>

lemma prod_coprime: "(\<And>q. q \<in> set qs \<Longrightarrow> coprime (p :: nat) q) \<Longrightarrow> coprime p (prod_list qs)"
  by (induction qs) simp_all

lemma prod_primes_dvd:
  assumes "distinct ps" and "\<And>p. p \<in> set ps \<Longrightarrow> is_prime p \<and> p dvd (x :: nat)"
  shows "prod_list ps dvd x"
  using assms
proof (induction ps)
  case (Cons p ps)
  have "coprime p (prod_list ps)" using Cons.prems by (intro prod_coprime primes_coprime) auto
  then show ?case using Cons by (simp add: divides_mult)
qed simp

definition rsa_law :: "nat \<Rightarrow> nat \<Rightarrow> nat \<Rightarrow> bool" where
  "rsa_law n e d \<longleftrightarrow> (\<forall>m < n. (m ^ e mod n) ^ d mod n = m)"

lemma rsa_correct:
  assumes "distinct ps" and "\<And>p. p \<in> set ps \<Longrightarrow> is_prime p \<and> e * d mod (p - 1) = 1 mod (p - 1)" and "0 < e * d"
  shows "rsa_law (prod_list ps) e d"
  unfolding rsa_law_def
proof (intro allI impI)
  fix m assume m: "m < prod_list ps"
  have le: "m \<le> m ^ (e * d)" using assms(3) by (cases m) (simp_all add: self_le_power)
  have "p dvd m ^ (e * d) - m" if "p \<in> set ps" for p
    using fermat_exponent [of p "e * d" m] assms(2) [OF that] assms(3) le by (simp add: mod_eq_dvd_iff_nat)
  then have "prod_list ps dvd m ^ (e * d) - m" using assms(1,2) by (intro prod_primes_dvd) auto
  then have "m ^ (e * d) mod prod_list ps = m mod prod_list ps" using le by (simp add: mod_eq_dvd_iff_nat)
  then show "(m ^ e mod prod_list ps) ^ d mod prod_list ps = m"
    using m by (simp add: power_mod power_mult)
qed

section \<open>Numbers and byte strings\<close>

definition os2ip :: "bytes \<Rightarrow> nat" where
  "os2ip bs = foldl (\<lambda>n c. 256 * n + of_char c) 0 bs"

fun i2osp :: "nat \<Rightarrow> nat \<Rightarrow> bytes" where
  "i2osp 0 n = []"
| "i2osp (Suc k) n = i2osp k (n div 256) @ [char_of (n mod 256)]"

lemma os2ip_snoc: "os2ip (bs @ [c]) = 256 * os2ip bs + of_char c"
  by (simp add: os2ip_def)

lemma length_i2osp [simp]: "length (i2osp k n) = k"
  by (induction k arbitrary: n) simp_all

lemma os2ip_i2osp: "n < 256 ^ k \<Longrightarrow> os2ip (i2osp k n) = n"
proof (induction k arbitrary: n)
  case (Suc k)
  then have "n div 256 < 256 ^ k" by (simp add: less_mult_imp_div_less mult.commute)
  with Suc.IH show ?case by (simp add: os2ip_snoc)
qed (simp add: os2ip_def)

lemma i2osp_os2ip: "i2osp (length bs) (os2ip bs) = bs"
proof (induction bs rule: rev_induct)
  case (snoc c bs)
  have "(of_char c :: nat) < 256" by simp
  then have "(256 * os2ip bs + of_char c) div 256 = os2ip bs" and "(256 * os2ip bs + of_char c) mod 256 = of_char c"
    by simp_all
  with snoc show ?case by (simp add: os2ip_snoc)
qed simp

lemma os2ip_bound: "os2ip bs < 256 ^ length bs"
proof (induction bs rule: rev_induct)
  case (snoc c bs)
  have lt: "256 * a + d < 256 * b" if "a < b" and "d < 256" for a b d :: nat using that by linarith
  have "256 * os2ip bs + of_char c < 256 * 256 ^ length bs" using snoc by (intro lt) simp_all
  then show ?case by (simp add: os2ip_snoc)
qed (simp add: os2ip_def)

lemma os2ip_zero: "os2ip (CHR 0x00 # bs) = os2ip bs"
  by (simp add: os2ip_def)

section \<open>Keys\<close>

record rsa_public =
  pub_N :: nat
  pub_E :: nat

record rsa_private = rsa_public +
  priv_D :: nat
  priv_Primes :: "nat list"

definition BitLen :: "nat \<Rightarrow> nat" where
  "BitLen n = bit_len (int n)"

text \<open>\<^verbatim>\<open>pub.Size()\<close>: the length of the modulus in bytes.\<close>

definition Size :: "nat \<Rightarrow> nat" where
  "Size n = (BitLen n + 7) div 8"

lemma BitLen_bounds:
  assumes "0 < n"
  shows "0 < BitLen n \<and> 2 ^ (BitLen n - 1) \<le> n \<and> n < 2 ^ BitLen n"
proof -
  from assms have b: "0 < BitLen n" "2 ^ (BitLen n - 1) \<le> int n" "int n < 2 ^ BitLen n"
    using bit_len_bounds [of "int n"] by (simp_all add: BitLen_def)
  then have "int (2 ^ (BitLen n - 1)) \<le> int n" and "int n < int (2 ^ BitLen n)" by simp_all
  with b(1) show ?thesis by (simp only: of_nat_le_iff of_nat_less_iff)
qed

lemma BitLen_ge:
  assumes "2 ^ k \<le> n"
  shows "k < BitLen n"
proof -
  have "(0 :: nat) < 2 ^ k" by simp
  with assms have "0 < n" by (rule less_le_trans [rotated])
  then have "n < 2 ^ BitLen n" using BitLen_bounds by blast
  with assms have "(2 :: nat) ^ k < 2 ^ BitLen n" by (rule le_less_trans)
  then show ?thesis by (rule power_less_imp_less_exp [rotated]) simp
qed

lemma Size_bounds:
  assumes "0 < n"
  shows "256 ^ (Size n - 1) \<le> n \<and> n < 256 ^ Size n"
proof -
  have e: "(256 :: nat) ^ k = 2 ^ (8 * k)" for k by (simp add: power_mult)
  have "8 * (Size n - 1) \<le> BitLen n - 1" and "BitLen n \<le> 8 * Size n"
    using BitLen_bounds [OF assms] by (simp_all add: Size_def)
  then have "(2 :: nat) ^ (8 * (Size n - 1)) \<le> 2 ^ (BitLen n - 1)" and "(2 :: nat) ^ BitLen n \<le> 2 ^ (8 * Size n)"
    by (simp_all add: power_increasing)
  then show ?thesis using BitLen_bounds [OF assms] unfolding e by linarith
qed

definition rsa_key_too_short :: goerror where
  "rsa_key_too_short = TextErr ''crypto/rsa: keys below 1024 bits are insecure''"

definition rsa_too_long :: goerror where
  "rsa_too_long = TextErr ''crypto/rsa: message too long for RSA key size''"

definition rsa_decryption :: goerror where
  "rsa_decryption = TextErr ''crypto/rsa: decryption error''"

definition rsa_bad_public :: goerror where
  "rsa_bad_public = TextErr ''crypto/rsa: unusable modulus or public exponent''"

definition usable_public :: "nat \<Rightarrow> nat \<Rightarrow> bool" where
  "usable_public n e \<longleftrightarrow> odd n \<and> 2 \<le> e \<and> odd e \<and> e < 2 ^ 31"

text \<open>What the library checks or guarantees of a private key that was generated or parsed.\<close>

definition valid_key :: "rsa_private \<Rightarrow> bool" where
  "valid_key K \<longleftrightarrow> distinct (priv_Primes K) \<and> list_all is_prime (priv_Primes K)
     \<and> prod_list (priv_Primes K) = pub_N K
     \<and> list_all (\<lambda>p. pub_E K * priv_D K mod (p - 1) = 1 mod (p - 1)) (priv_Primes K)
     \<and> 0 < priv_D K \<and> usable_public (pub_N K) (pub_E K) \<and> 1024 \<le> BitLen (pub_N K)"

section \<open>EncryptPKCS1v15 and DecryptPKCS1v15\<close>

fun mod_exp :: "nat \<Rightarrow> nat \<Rightarrow> nat \<Rightarrow> nat" where
  "mod_exp b e n =
     (if e = 0 then 1 mod n
      else (let h = mod_exp (b * b mod n) (e div 2) n in if odd e then b * h mod n else h))"

declare mod_exp.simps [simp del]

lemma mod_exp_power: "mod_exp b e n = b ^ e mod n"
proof (induction b e n rule: mod_exp.induct)
  case (1 b e n)
  show ?case
  proof (cases "e = 0")
    case False
    have IH: "mod_exp (b * b mod n) (e div 2) n = (b * b) ^ (e div 2) mod n"
      using "1.IH" [OF False] by (simp add: power_mod)
    have sq: "(b * b) ^ (e div 2) = b ^ (2 * (e div 2))" by (simp add: power_mult power2_eq_square)
    show ?thesis
    proof (cases "odd e")
      case True
      then have "b ^ e = b * b ^ (2 * (e div 2))" by (metis odd_two_times_div_two_succ power_Suc Suc_eq_plus1)
      then show ?thesis using True False IH sq by (simp add: mod_exp.simps [of b e n] Let_def mod_mult_right_eq)
    next
      case even: False
      then show ?thesis using False IH sq by (simp add: mod_exp.simps [of b e n] Let_def)
    qed
  qed (simp add: mod_exp.simps)
qed

text \<open>
  The random source: \<open>rng i j\<close> is the byte it gives for place \<open>j\<close> of the padding of call \<open>i\<close>; a
  zero is drawn again and changed, until the byte is not zero.
\<close>

type_synonym rng = "nat \<Rightarrow> char"

definition nonzero :: "char \<Rightarrow> char" where
  "nonzero c = (if c = CHR 0x00 then CHR 0x42 else c)"

definition EncryptPKCS1v15 :: "rng \<Rightarrow> rsa_public \<Rightarrow> bytes \<Rightarrow> goerror + bytes" where
  "EncryptPKCS1v15 r pub msg =
     (let k = Size (pub_N pub) in
      if BitLen (pub_N pub) < 1024 then Inl rsa_key_too_short
      else if int k - 11 < int (length msg) then Inl rsa_too_long
      else if \<not> usable_public (pub_N pub) (pub_E pub) then Inl rsa_bad_public
      else (let ps = map (\<lambda>j. nonzero (r j)) [0..<k - length msg - 3];
                em = CHR 0x00 # CHR 0x02 # ps @ CHR 0x00 # msg
            in Inr (i2osp k (mod_exp (os2ip em) (pub_E pub) (pub_N pub)))))"

definition DecryptPKCS1v15 :: "rsa_private \<Rightarrow> bytes \<Rightarrow> goerror + bytes" where
  "DecryptPKCS1v15 priv ct =
     (if BitLen (pub_N priv) < 1024 then Inl rsa_key_too_short
      else if pub_N priv \<le> os2ip ct then Inl rsa_decryption
      else (let em = i2osp (Size (pub_N priv)) (mod_exp (os2ip ct) (priv_D priv) (pub_N priv));
                ps = takeWhile (\<lambda>c. c \<noteq> CHR 0x00) (drop 2 em); rest = drop 2 em
            in if em ! 0 = CHR 0x00 \<and> em ! 1 = CHR 0x02 \<and> 8 \<le> length ps \<and> length ps < length rest
               then Inr (drop (length ps + 1) rest) else Inl rsa_decryption))"

lemma pkcs_decrypts:
  assumes "valid_key K" and "length msg + 11 \<le> Size (pub_N K)"
  shows "\<exists>ct. EncryptPKCS1v15 r (rsa_public.truncate K) msg = Inr ct \<and> length ct = Size (pub_N K)
    \<and> DecryptPKCS1v15 K ct = Inr msg"
proof -
  let ?k = "Size (pub_N K)" and ?n = "pub_N K"
  define ps where "ps = map (\<lambda>j. nonzero (r j)) [0..<?k - length msg - 3]"
  define em where "em = CHR 0x00 # CHR 0x02 # ps @ CHR 0x00 # msg"
  have n: "0 < ?n" using assms(1) by (auto simp: valid_key_def usable_public_def intro: odd_pos)
  have len: "length ps = ?k - length msg - 3" and nz: "CHR 0x00 \<notin> set ps"
    by (auto simp: ps_def nonzero_def split: if_splits)
  have lem: "length em = ?k" using assms(2) len by (simp add: em_def)
  have "length (tl em) = ?k - 1" and "os2ip em = os2ip (tl em)"
    using lem by (simp_all add: em_def os2ip_zero)
  then have "os2ip em < 256 ^ (?k - 1)" using os2ip_bound [of "tl em"] by metis
  then have m: "os2ip em < ?n" using Size_bounds [OF n] by simp
  have law: "rsa_law ?n (pub_E K) (priv_D K)"
    using assms(1) rsa_correct [of "priv_Primes K" "pub_E K" "priv_D K"]
    by (auto simp: valid_key_def list_all_iff usable_public_def)
  define c where "c = mod_exp (os2ip em) (pub_E K) ?n"
  have c: "c < ?n" using n by (simp add: c_def mod_exp_power)
  have ct: "os2ip (i2osp ?k c) = c" using c Size_bounds [OF n] by (intro os2ip_i2osp) simp
  have inverse_em: "i2osp ?k (mod_exp c (priv_D K) ?n) = em"
    using law m i2osp_os2ip [of em] lem by (simp add: c_def mod_exp_power rsa_law_def)
  have tw: "takeWhile (\<lambda>c. c \<noteq> CHR 0x00) (drop 2 em) = ps"
    using nz by (auto simp: em_def takeWhile_append takeWhile_eq_all_conv)
  have enc: "EncryptPKCS1v15 r (rsa_public.truncate K) msg = Inr (i2osp ?k c)"
    using assms by (simp add: EncryptPKCS1v15_def Let_def rsa_public.defs valid_key_def c_def em_def ps_def)
  have "DecryptPKCS1v15 K (i2osp ?k c) = Inr msg"
    using assms c len
    by (simp add: DecryptPKCS1v15_def ct inverse_em tw Let_def valid_key_def) (simp add: em_def, linarith)
  then show ?thesis using enc by simp
qed

end
