(* ===== verification/SampleKey.thy ===== *)
theory SampleKey
  imports RSA
begin

text \<open>
  A key on which the theorems about keys are exercised: small primes \<open>p\<close> with \<open>p - 1\<close> a divisor
  of 36756720. Trial division shows each of them prime, and the power of two that
  comes with each adds up to show that the modulus has 1024 bits.
\<close>

section \<open>Trial division\<close>

definition small_primes :: "int list" where
  "small_primes = [2, 3, 5, 7, 11, 13, 17, 19, 23, 29, 31, 37, 41, 43, 47, 53,
     59, 61, 67, 71, 73, 79, 83, 89, 97, 101, 103]"

definition trial_division :: "int \<Rightarrow> bool" where
  "trial_division p \<longleftrightarrow> 1 < p \<and> p < 107 * 107
     \<and> list_all (\<lambda>q. if q * q \<le> p then p mod q \<noteq> 0 else True) small_primes"

lemma small_primes_cover: "list_all (\<lambda>d. list_ex (\<lambda>q. 0 < q \<and> d mod q = 0) small_primes) [2..106]"
  by code_simp

lemma trial_division_prime:
  assumes "trial_division p"
  shows "is_prime (nat p)"
  unfolding is_prime_def
proof (intro conjI allI impI)
  from assms show "1 < nat p" by (simp add: trial_division_def)
  fix d assume "d dvd nat p"
  then obtain c where c: "nat p = d * c" by blast
  have "p = int (nat p)" using assms by (simp add: trial_division_def)
  then have ci: "p = int d * int c" unfolding c by simp
  have no: False if "2 \<le> x" "x * x \<le> p" "x dvd p" for x
  proof -
    have "x < 107"
    proof (rule ccontr)
      assume "\<not> ?thesis"
      then have "107 * 107 \<le> x * x" by (intro mult_mono) simp_all
      with that(2) assms show False by (simp add: trial_division_def)
    qed
    with that(1) have "x \<in> set [2..106]" unfolding set_upto by simp
    then have "list_ex (\<lambda>q. 0 < q \<and> x mod q = 0) small_primes"
      using small_primes_cover unfolding list_all_iff by blast
    then obtain q where q: "q \<in> set small_primes" "0 < q" "q dvd x"
      by (auto simp: list_ex_iff dvd_eq_mod_eq_0 simp del: upto.simps)
    have "q \<le> x" using q(3) that(1) by (intro zdvd_imp_le) simp_all
    then have "q * q \<le> x * x" using q(2) by (intro mult_mono) simp_all
    with that(2) have "q * q \<le> p" by simp
    moreover have "q dvd p" using q(3) that(3) by (rule dvd_trans)
    ultimately show False using assms q(1) by (auto simp: trial_division_def list_all_iff)
  qed
  show "d = 1 \<or> d = nat p"
  proof (rule ccontr)
    assume "\<not> ?thesis"
    with c \<open>1 < nat p\<close> have two: "2 \<le> int d" "2 \<le> int c" by (cases d; cases c; force)+
    have "int d * int d \<le> p \<or> int c * int c \<le> p"
      unfolding ci by (cases "d \<le> c") (simp_all add: mult_left_mono mult_right_mono)
    then show False using no [of "int d"] no [of "int c"] two ci by auto
  qed
qed

section \<open>The key\<close>

definition sample_primes :: "(nat \<times> int) list" where
  "sample_primes =
    [(1, 3), (2, 5), (2, 7), (3, 11), (3, 13), (4, 17), (4, 19), (4, 23), (4, 29),
     (4, 31), (5, 37), (5, 41), (5, 43), (5, 53), (5, 61), (6, 67), (6, 71), (6, 73),
     (6, 79), (6, 89), (6, 103), (6, 109), (6, 113), (6, 127), (7, 131), (7, 137),
     (7, 157), (7, 181), (7, 199), (7, 211), (7, 239), (7, 241), (8, 271),
     (8, 281), (8, 307), (8, 313), (8, 331), (8, 337), (8, 379), (8, 397),
     (8, 409), (8, 421), (8, 433), (8, 443), (8, 463), (9, 521), (9, 541),
     (9, 547), (9, 613), (9, 617), (9, 631), (9, 661), (9, 757), (9, 859),
     (9, 881), (9, 911), (9, 919), (9, 937), (9, 953), (9, 991), (9, 1009),
     (9, 1021), (10, 1093), (10, 1123), (10, 1171), (10, 1321), (10, 1327),
     (10, 1361), (10, 1429), (10, 1531), (10, 1871), (10, 1873), (10, 2003),
     (11, 2143), (11, 2161), (11, 2311), (11, 2341), (11, 2377), (11, 2381),
     (11, 2521), (11, 2731), (11, 2857), (11, 2861), (11, 2971), (11, 3061),
     (11, 3121), (11, 3433), (11, 3511), (11, 3571), (11, 3673), (11, 3697),
     (12, 4159), (12, 4421), (12, 4591), (12, 4621), (12, 5237), (12, 6007),
     (12, 6121), (12, 6427), (12, 6553), (12, 6733), (12, 7481), (12, 7561),
     (12, 7723), (12, 8009), (12, 8191), (13, 8317), (13, 8581), (13, 9181),
     (13, 9241), (13, 9283), (13, 9521), (13, 9829), (13, 10099), (13, 10711)]"

definition sample_modulus_primes :: "nat list" where
  "sample_modulus_primes = map (\<lambda>(b, p). nat p) sample_primes"

definition sample_key :: rsa_private where
  "sample_key = \<lparr>pub_N = prod_list sample_modulus_primes, pub_E = 65537, priv_D = 27221633, priv_Primes = sample_modulus_primes\<rparr>"

definition prime_entry :: "nat \<Rightarrow> int \<Rightarrow> bool" where
  "prime_entry b p \<longleftrightarrow> trial_division p \<and> 2 ^ b \<le> p \<and> odd p
     \<and> 65537 * 27221633 mod (p - 1) = 1 mod (p - 1)"

lemma sample_entries: "list_all (\<lambda>(b, p). prime_entry b p) sample_primes"
  by code_simp

lemma sample_increasing: "sorted_wrt (<) (map (\<lambda>(b, p). p) sample_primes)"
proof -
  have "successively (<) (map (\<lambda>(b, p). p) sample_primes)" by code_simp
  then show ?thesis by (rule successively_iff_sorted_wrt_strong [THEN iffD1, rotated]) simp
qed

lemma sample_bits: "1023 \<le> sum_list (map (\<lambda>(b, p). int b) sample_primes)"
  by code_simp

lemma prime_entry_nat:
  assumes "prime_entry b p"
  shows "is_prime (nat p)" "2 ^ b \<le> nat p" "odd (nat p)" "65537 * 27221633 mod (nat p - 1) = 1 mod (nat p - 1)"
proof -
  show "is_prime (nat p)" using assms trial_division_prime [of p] unfolding prime_entry_def by blast
  have p: "1 < p" using assms by (simp add: prime_entry_def trial_division_def)
  then obtain n where n: "p = int n" by (metis le_less_trans nonneg_int_cases order_less_imp_le zero_le_one)
  have "int (2 ^ b) \<le> int n" using assms n by (simp add: prime_entry_def)
  then show "2 ^ b \<le> nat p" using n by (metis nat_int of_nat_le_iff)
  show "odd (nat p)" using assms n by (simp add: prime_entry_def)
  have "int (65537 * 27221633 mod (n - 1)) = int (1 mod (n - 1))"
    using assms p n by (simp add: prime_entry_def zmod_int of_nat_diff)
  then show "65537 * 27221633 mod (nat p - 1) = 1 mod (nat p - 1)" using n by (metis nat_int of_nat_eq_iff)
qed

lemma prod_list_power2:
  "list_all (\<lambda>(b, p). 2 ^ b \<le> p) xs \<Longrightarrow> (2 :: nat) ^ sum_list (map fst xs) \<le> prod_list (map snd xs)"
  by (induction xs) (auto simp: power_add intro: mult_le_mono)

lemma prod_list_odd: "list_all odd (xs :: nat list) \<Longrightarrow> odd (prod_list xs)"
  by (induction xs) simp_all

lemma sample_key_valid: "valid_key sample_key"
proof -
  have entry: "prime_entry b p" if "(b, p) \<in> set sample_primes" for b p
    using sample_entries that by (auto simp: list_all_iff)
  have of_entry: "list_all P sample_modulus_primes" if "\<And>b p. prime_entry b p \<Longrightarrow> P (nat p)" for P
    using entry that by (fastforce simp: sample_modulus_primes_def list_all_iff)
  note all = of_entry [of is_prime, OF prime_entry_nat(1)] of_entry [of odd, OF prime_entry_nat(3)]
    of_entry [of "\<lambda>p. 65537 * 27221633 mod (p - 1) = 1 mod (p - 1)", OF prime_entry_nat(4)]
  have "list_all (\<lambda>(b, p). 2 ^ b \<le> p) (map (\<lambda>(b, p). (b, nat p)) sample_primes)"
    unfolding list_all_iff using entry prime_entry_nat(2) by auto
  from prod_list_power2 [OF this]
  have "(2 :: nat) ^ sum_list (map (\<lambda>(b, p). b) sample_primes) \<le> prod_list sample_modulus_primes"
    by (simp add: sample_modulus_primes_def comp_def case_prod_beta')
  moreover have sample_bits': "1023 \<le> sum_list (map (\<lambda>(b, p). b) sample_primes)"
  proof -
    have "sum_list (map (\<lambda>(b, p). int b) xs) = int (sum_list (map (\<lambda>(b, p). b) xs))" for xs :: "(nat \<times> int) list"
      by (induction xs) auto
    then show ?thesis using sample_bits by simp
  qed
  moreover from this have "(2 :: nat) ^ 1023 \<le> 2 ^ sum_list (map (\<lambda>(b, p). b) sample_primes)"
    using sample_bits' by (intro power_increasing) simp_all
  ultimately have "1023 < BitLen (prod_list sample_modulus_primes)" by (intro BitLen_ge) (rule order_trans)
  moreover have "distinct sample_modulus_primes"
  proof -
    have "distinct (map (\<lambda>(b, p). p) sample_primes)" using sample_increasing strict_sorted_iff by blast
    then show ?thesis unfolding sample_modulus_primes_def using entry
      by (fastforce simp: distinct_map inj_on_def prime_entry_def trial_division_def)
  qed
  ultimately show ?thesis using all prod_list_odd [OF all(2)]
    by (simp add: valid_key_def sample_key_def usable_public_def)
qed

end
