(* ===== verification/Crypto.thy ===== *)
theory Crypto
  imports SampleKey MemStorage Retry
begin

text \<open>
  \<^verbatim>\<open>internal/crypto/utils.go\<close> and \<^verbatim>\<open>internal/crypto/rsa.go\<close>: loading, generating and saving RSA keys,
  encryption of one block, and of data of any length in blocks. The PEM and x509 codecs are
  parameters (record \<open>keylib\<close>); RSA itself is defined in theory RSA. The loop over the blocks
  is a partial function, so that not returning is the value None.
\<close>

section \<open>Keys in files\<close>

datatype 'k any_key = RSAKey 'k | OtherKey

record pemblock =
  blockType :: string
  blockBytes :: bytes

record keylib =
  pem_Decode :: "bytes \<Rightarrow> pemblock option"
  pem_Encode :: "pemblock \<Rightarrow> bytes"
  ParsePKIXPublicKey :: "bytes \<Rightarrow> goerror + rsa_public any_key"
  ParsePKCS1PublicKey :: "bytes \<Rightarrow> goerror + rsa_public"
  ParsePKCS8PrivateKey :: "bytes \<Rightarrow> goerror + rsa_private any_key"
  ParsePKCS1PrivateKey :: "bytes \<Rightarrow> goerror + rsa_private"
  MarshalPKCS1PrivateKey :: "rsa_private \<Rightarrow> bytes"
  MarshalPKIXPublicKey :: "rsa_public \<Rightarrow> goerror + bytes"
  rsa_GenerateKey :: "int \<Rightarrow> goerror + rsa_private"   \<comment> \<open>what this draw of the random source gives\<close>

datatype crypto_error =
    NoKeyFile goerror
  | NoPEMBlock
  | BadKey goerror
  | NotRSAKey
  | UnsupportedType string
  | NoKey goerror
  | NotMarshalled goerror
  | NotCreated goerror
  | NotWritten goerror
  | RSAError goerror
  | EncryptBlock goerror
  | DecryptBlock goerror
  | NotMultiple

definition LoadPublicKey :: "keylib \<Rightarrow> filesystem \<Rightarrow> string \<Rightarrow> crypto_error + rsa_public" where
  "LoadPublicKey KL fs filename = (case os_open filename fs of
     Inl e \<Rightarrow> Inl (NoKeyFile e)
   | Inr keyData \<Rightarrow> (case pem_Decode KL keyData of
       None \<Rightarrow> Inl NoPEMBlock
     | Some block \<Rightarrow>
         if blockType block = ''PUBLIC KEY'' then
           (case ParsePKIXPublicKey KL (blockBytes block) of
              Inl e \<Rightarrow> Inl (BadKey e)
            | Inr OtherKey \<Rightarrow> Inl NotRSAKey
            | Inr (RSAKey pub) \<Rightarrow> Inr pub)
         else if blockType block = ''RSA PUBLIC KEY'' then
           (case ParsePKCS1PublicKey KL (blockBytes block) of Inl e \<Rightarrow> Inl (BadKey e) | Inr pub \<Rightarrow> Inr pub)
         else Inl (UnsupportedType (blockType block))))"

definition LoadPrivateKey :: "keylib \<Rightarrow> filesystem \<Rightarrow> string \<Rightarrow> crypto_error + rsa_private" where
  "LoadPrivateKey KL fs filename = (case os_open filename fs of
     Inl e \<Rightarrow> Inl (NoKeyFile e)
   | Inr keyData \<Rightarrow> (case pem_Decode KL keyData of
       None \<Rightarrow> Inl NoPEMBlock
     | Some block \<Rightarrow>
         if blockType block = ''PRIVATE KEY'' then
           (case ParsePKCS8PrivateKey KL (blockBytes block) of
              Inl e \<Rightarrow> Inl (BadKey e)
            | Inr OtherKey \<Rightarrow> Inl NotRSAKey
            | Inr (RSAKey priv) \<Rightarrow> Inr priv)
         else if blockType block = ''RSA PRIVATE KEY'' then
           (case ParsePKCS1PrivateKey KL (blockBytes block) of Inl e \<Rightarrow> Inl (BadKey e) | Inr priv \<Rightarrow> Inr priv)
         else Inl (UnsupportedType (blockType block))))"

definition public_part :: "rsa_private \<Rightarrow> rsa_public" where
  "public_part K = rsa_public.truncate K"

definition GenerateKeyPair :: "keylib \<Rightarrow> int \<Rightarrow> crypto_error + rsa_private \<times> rsa_public" where
  "GenerateKeyPair KL bits = (case rsa_GenerateKey KL bits of
     Inl e \<Rightarrow> Inl (NoKey e) | Inr K \<Rightarrow> Inr (K, public_part K))"

text \<open>Creating the file and writing the PEM text; a failure of either leaves what was done so far.\<close>

definition write_pem :: "keylib \<Rightarrow> string \<Rightarrow> pemblock \<Rightarrow> filesystem \<Rightarrow> crypto_error option \<times> filesystem" where
  "write_pem KL filename block fs = (case os_create filename fs of
     (Some e, fs1) \<Rightarrow> (Some (NotCreated e), fs1)
   | (None, fs1) \<Rightarrow> (case file_write filename (pem_Encode KL block) fs1 of
       (Some e, fs2) \<Rightarrow> (Some (NotWritten e), fs2)
     | (None, fs2) \<Rightarrow> (None, fs2)))"

definition SavePrivateKeyToFile :: "keylib \<Rightarrow> string \<Rightarrow> rsa_private \<Rightarrow> filesystem \<Rightarrow> crypto_error option \<times> filesystem" where
  "SavePrivateKeyToFile KL filename K fs =
     write_pem KL filename \<lparr>blockType = ''RSA PRIVATE KEY'', blockBytes = MarshalPKCS1PrivateKey KL K\<rparr> fs"

definition SavePublicKeyToFile :: "keylib \<Rightarrow> string \<Rightarrow> rsa_public \<Rightarrow> filesystem \<Rightarrow> crypto_error option \<times> filesystem" where
  "SavePublicKeyToFile KL filename P fs = (case MarshalPKIXPublicKey KL P of
     Inl e \<Rightarrow> (Some (NotMarshalled e), fs)
   | Inr b \<Rightarrow> write_pem KL filename \<lparr>blockType = ''PUBLIC KEY'', blockBytes = b\<rparr> fs)"

section \<open>Encryption\<close>

definition EncryptData :: "rng \<Rightarrow> bytes \<Rightarrow> rsa_public \<Rightarrow> goerror + bytes" where
  "EncryptData r data P = EncryptPKCS1v15 r P data"

definition DecryptData :: "bytes \<Rightarrow> rsa_private \<Rightarrow> goerror + bytes" where
  "DecryptData encryptedData K = DecryptPKCS1v15 K encryptedData"

text \<open>\<^verbatim>\<open>data[lo:hi]\<close>; the loops check the bounds before.\<close>

definition slice :: "int \<Rightarrow> int \<Rightarrow> bytes \<Rightarrow> bytes" where
  "slice lo hi data = take (nat (hi - lo)) (drop (nat lo) data)"

text \<open>The \<open>n\<close>-th block is padded from the bytes the random source gives at its \<open>n\<close>-th use.\<close>

partial_function (option) encrypt_blocks :: "(nat \<Rightarrow> bytes \<Rightarrow> goerror + bytes) \<Rightarrow> int \<Rightarrow> bytes \<Rightarrow> nat \<Rightarrow> int
    \<Rightarrow> bytes \<Rightarrow> (crypto_error + bytes) outcome option" where
  "encrypt_blocks enc blockSize data n i encrypted =
     (if i < int (length data) then
        (let hi = (if int (length data) < i + blockSize then int (length data) else i + blockSize) in
         if hi < i then Some (Panicked ''slice bounds out of range'')
         else (case enc n (slice i hi data) of
             Inl e \<Rightarrow> Some (Returned (Inl (EncryptBlock e)))
           | Inr b \<Rightarrow> encrypt_blocks enc blockSize data (Suc n) (i + blockSize) (encrypted @ b)))
      else Some (Returned (Inr encrypted)))"

definition EncryptLargeData :: "(nat \<Rightarrow> rng) \<Rightarrow> bytes \<Rightarrow> rsa_public \<Rightarrow> (crypto_error + bytes) outcome option" where
  "EncryptLargeData rand data P =
     (let blockSize = int (Size (pub_N P)) - 11 in
      if int (length data) \<le> blockSize
      then Some (Returned (case EncryptData (rand 0) data P of Inl e \<Rightarrow> Inl (RSAError e) | Inr b \<Rightarrow> Inr b))
      else encrypt_blocks (\<lambda>n block. EncryptData (rand n) block P) blockSize data 0 0 [])"

partial_function (option) decrypt_blocks :: "(bytes \<Rightarrow> goerror + bytes) \<Rightarrow> int \<Rightarrow> bytes \<Rightarrow> int
    \<Rightarrow> bytes \<Rightarrow> (crypto_error + bytes) outcome option" where
  "decrypt_blocks dec keySize data i decrypted =
     (if i < int (length data) then
        (if int (length data) < i + keySize then Some (Panicked ''slice bounds out of range'')
         else (case dec (slice i (i + keySize) data) of
             Inl e \<Rightarrow> Some (Returned (Inl (DecryptBlock e)))
           | Inr b \<Rightarrow> decrypt_blocks dec keySize data (i + keySize) (decrypted @ b)))
      else Some (Returned (Inr decrypted)))"

definition DecryptLargeData :: "bytes \<Rightarrow> rsa_private \<Rightarrow> (crypto_error + bytes) outcome option" where
  "DecryptLargeData encryptedData K =
     (let keySize = Size (pub_N K) in
      if keySize = 0 then Some (Panicked ''integer divide by zero'')
      else if length encryptedData mod keySize \<noteq> 0 then Some (Returned (Inl NotMultiple))
      else decrypt_blocks (\<lambda>block. DecryptData block K) (int keySize) encryptedData 0 [])"

section \<open>The contract of a block cipher and the loops over it\<close>

lemma encrypt_step:
  assumes "i < length data" and "enc n (take k (drop i data)) = Inr c"
  shows "encrypt_blocks enc (int k) data n (int i) acc = encrypt_blocks enc (int k) data (Suc n) (int (i + k)) (acc @ c)"
proof -
  have cut: "slice (int i) (if int (length data) < int i + int k then int (length data) else int i + int k) data
    = take k (drop i data)" by (simp add: slice_def)
  have ge: "\<not> (if int (length data) < int i + int k then int (length data) else int i + int k) < int i"
    using assms(1) by simp
  show ?thesis using assms
    by (subst encrypt_blocks.simps) (simp only: Let_def cut ge if_False if_True of_nat_less_iff sum.case of_nat_add)
qed

lemma encrypt_fails:
  assumes "i < length data" and "enc n (take k (drop i data)) = Inl e"
  shows "encrypt_blocks enc (int k) data n (int i) acc = Some (Returned (Inl (EncryptBlock e)))"
proof -
  have cut: "slice (int i) (if int (length data) < int i + int k then int (length data) else int i + int k) data
    = take k (drop i data)" by (simp add: slice_def)
  have ge: "\<not> (if int (length data) < int i + int k then int (length data) else int i + int k) < int i"
    using assms(1) by simp
  show ?thesis using assms
    by (subst encrypt_blocks.simps) (simp only: Let_def cut ge if_False if_True of_nat_less_iff sum.case)
qed

lemma encrypt_end: "encrypt_blocks enc k data n (int (length data + j)) acc = Some (Returned (Inr acc))"
  by (simp add: encrypt_blocks.simps)

lemma decrypt_step:
  assumes "dec c = Inr b" and "c \<noteq> []"
  shows "decrypt_blocks dec (int (length c)) (pre @ c @ ct) (int (length pre)) acc
    = decrypt_blocks dec (int (length c)) (pre @ c @ ct) (int (length (pre @ c))) (acc @ b)"
proof -
  have "slice (int (length pre)) (int (length pre) + int (length c)) (pre @ c @ ct) = c" by (simp add: slice_def)
  moreover have "0 < int (length c) + int (length ct)" using assms(2) by (cases c) simp_all
  ultimately show ?thesis using assms(1) by (subst decrypt_blocks.simps) simp
qed

lemma decrypt_end: "decrypt_blocks dec k ct (int (length ct)) acc = Some (Returned (Inr acc))"
  by (simp add: decrypt_blocks.simps)

locale block_cipher =
  fixes ok :: "'k \<Rightarrow> bool"
    and key_size :: "'k \<Rightarrow> nat"
    and encrypt :: "rng \<Rightarrow> 'k \<Rightarrow> bytes \<Rightarrow> goerror + bytes"
    and decrypt :: "'k \<Rightarrow> bytes \<Rightarrow> goerror + bytes"
  assumes room: "ok K \<Longrightarrow> 11 < key_size K"
    and block_roundtrip: "ok K \<Longrightarrow> length m + 11 \<le> key_size K \<Longrightarrow>
      \<exists>c. encrypt r K m = Inr c \<and> length c = key_size K \<and> decrypt K c = Inr m"
begin

lemma blocks_roundtrip:
  assumes "ok K"
  shows "\<exists>ct. encrypt_blocks (\<lambda>n b. encrypt (rand n) K b) (int (key_size K - 11)) data n (int i) acc = Some (Returned (Inr (acc @ ct)))
    \<and> length ct mod key_size K = 0
    \<and> (\<forall>pre acc'. decrypt_blocks (decrypt K) (int (key_size K)) (pre @ ct) (int (length pre)) acc'
          = Some (Returned (Inr (acc' @ drop i data))))"
proof (induction "length data - i" arbitrary: i n acc rule: less_induct)
  case less
  let ?k = "key_size K"
  note r = room [OF assms]
  show ?case
  proof (cases "i < length data")
    case False
    then obtain j where i: "i = length data + j" by (metis le_Suc_ex not_less)
    show ?thesis
      by (rule exI [of _ "[]"]) (simp add: encrypt_end decrypt_end i del: of_nat_add length_append)
  next
    case True
    define b where "b = take (?k - 11) (drop i data)"
    have "length b + 11 \<le> ?k" using r by (simp add: b_def)
    from block_roundtrip [OF assms this] obtain c
      where c: "encrypt (rand n) K b = Inr c" "length c = ?k" "decrypt K c = Inr b" by blast
    have "length data - (i + (?k - 11)) < length data - i" using True r by simp
    from less [OF this, of "Suc n" "acc @ c"] obtain ct where
      enc: "encrypt_blocks (\<lambda>n b. encrypt (rand n) K b) (int (?k - 11)) data (Suc n) (int (i + (?k - 11))) (acc @ c)
         = Some (Returned (Inr ((acc @ c) @ ct)))"
      and len: "length ct mod ?k = 0"
      and dec: "\<And>pre acc'. decrypt_blocks (decrypt K) (int ?k) (pre @ ct) (int (length pre)) acc'
          = Some (Returned (Inr (acc' @ drop (i + (?k - 11)) data)))" by (elim exE conjE) (rule that, assumption+, erule allE, erule allE)
    have "c \<noteq> []" using c(2) r by auto
    have "drop i data = b @ drop (i + (?k - 11)) data" unfolding b_def by (metis append_take_drop_id drop_drop add.commute)
    then have "decrypt_blocks (decrypt K) (int ?k) (pre @ c @ ct) (int (length pre)) acc' = Some (Returned (Inr (acc' @ drop i data)))"
      for pre acc'
      using decrypt_step [of "decrypt K" c b pre ct acc'] c(2,3) \<open>c \<noteq> []\<close> dec [of "pre @ c" "acc' @ b"] by simp
    moreover have "encrypt_blocks (\<lambda>n b. encrypt (rand n) K b) (int (?k - 11)) data n (int i) acc = Some (Returned (Inr (acc @ c @ ct)))"
      using encrypt_step [of i data "\<lambda>n b. encrypt (rand n) K b" n "?k - 11" c acc] c(1) True enc by (simp add: b_def)
    moreover have "length (c @ ct) mod ?k = 0" using c(2) len by simp
    ultimately show ?thesis by (intro exI [of _ "c @ ct"] conjI allI)
  qed
qed

lemma one_block_roundtrip:
  assumes "ok K" and "length data + 11 \<le> key_size K"
  shows "\<exists>ct. encrypt r K data = Inr ct \<and> length ct mod key_size K = 0
    \<and> decrypt_blocks (decrypt K) (int (key_size K)) ct 0 [] = Some (Returned (Inr data))"
proof -
  from block_roundtrip [OF assms] obtain c where c: "encrypt r K data = Inr c" "length c = key_size K" "decrypt K c = Inr data" by blast
  moreover have "decrypt_blocks (decrypt K) (int (key_size K)) c 0 [] = Some (Returned (Inr data))"
    using c(2,3) room [OF assms(1)] by (simp add: decrypt_blocks.simps slice_def)
  ultimately show ?thesis by auto
qed

end

interpretation rsa: block_cipher valid_key "\<lambda>K. Size (pub_N K)" "\<lambda>r K m. EncryptData r m (public_part K)" "\<lambda>K c. DecryptData c K"
proof
  fix K :: rsa_private and m :: bytes and r :: rng
  assume K: "valid_key K"
  then have "1024 \<le> BitLen (pub_N K)" by (simp add: valid_key_def)
  then show "11 < Size (pub_N K)" unfolding Size_def by linarith
  assume "length m + 11 \<le> Size (pub_N K)"
  from pkcs_decrypts [OF K this, of r]
  show "\<exists>c. EncryptData r m (public_part K) = Inr c \<and> length c = Size (pub_N K) \<and> DecryptData c K = Inr m"
    by (simp add: EncryptData_def DecryptData_def public_part_def)
qed

lemma public_part_fields [simp]: "pub_N (public_part K) = pub_N K" "pub_E (public_part K) = pub_E K"
  by (simp_all add: public_part_def rsa_public.defs)

lemma large_roundtrip:
  assumes "valid_key K"
  shows "\<exists>ct. EncryptLargeData rand data (public_part K) = Some (Returned (Inr ct)) \<and> DecryptLargeData ct K = Some (Returned (Inr data))"
proof (cases "length data + 11 \<le> Size (pub_N K)")
  case True
  from rsa.one_block_roundtrip [OF assms True, of "rand 0"] obtain ct where
    enc: "EncryptData (rand 0) data (public_part K) = Inr ct" and len: "length ct mod Size (pub_N K) = 0"
    and dec: "decrypt_blocks (\<lambda>c. DecryptData c K) (int (Size (pub_N K))) ct 0 [] = Some (Returned (Inr data))" by (elim exE conjE) (rule that)
  have fits: "int (length data) \<le> int (Size (pub_N K)) - 11" and pos: "Size (pub_N K) \<noteq> 0" using True by linarith+
  from enc fits have "EncryptLargeData rand data (public_part K) = Some (Returned (Inr ct))"
    by (simp add: EncryptLargeData_def)
  moreover have "DecryptLargeData ct K = Some (Returned (Inr data))"
    unfolding DecryptLargeData_def Let_def if_not_P [OF pos] using len dec by simp
  ultimately show ?thesis by blast
next
  case False
  let ?k = "Size (pub_N K)"
  have r: "int ?k - 11 = int (?k - 11)" "?k \<noteq> 0" using rsa.room [OF assms] by simp_all
  have nofit: "\<not> int (length data) \<le> int (?k - 11)" using False rsa.room [OF assms] by linarith
  from rsa.blocks_roundtrip [OF assms, of rand data 0 0 "[]"] obtain ct where
    enc: "encrypt_blocks (\<lambda>n b. EncryptData (rand n) b (public_part K)) (int (?k - 11)) data 0 0 [] = Some (Returned (Inr ct))"
    and len: "length ct mod ?k = 0"
    and dec: "\<And>pre acc. decrypt_blocks (\<lambda>c. DecryptData c K) (int ?k) (pre @ ct) (int (length pre)) acc = Some (Returned (Inr (acc @ data)))"
    by auto
  have "EncryptLargeData rand data (public_part K) = Some (Returned (Inr ct))"
    unfolding EncryptLargeData_def Let_def public_part_fields r(1) if_not_P [OF nofit] by (rule enc)
  moreover have "DecryptLargeData ct K = Some (Returned (Inr data))"
    unfolding DecryptLargeData_def Let_def if_not_P [OF r(2)] using len dec [of "[]" "[]"] by simp
  ultimately show ?thesis by blast
qed

lemma encrypt_blocks_returns:
  assumes "0 < k"
  shows "\<exists>r. encrypt_blocks enc (int k) data n (int i) acc = Some (Returned r)"
proof (induction "length data - i" arbitrary: i n acc rule: less_induct)
  case less
  show ?case
  proof (cases "i < length data")
    case True
    then have lt: "length data - (i + k) < length data - i" using assms by simp
    show ?thesis
    proof (cases "enc n (take k (drop i data))")
      case (Inl e)
      show ?thesis using encrypt_fails [where enc = enc and k = k, OF True Inl] by blast
    next
      case (Inr c)
      show ?thesis unfolding encrypt_step [where enc = enc and k = k, OF True Inr] by (rule less [OF lt])
    qed
  next
    case False
    then obtain j where "i = length data + j" by (metis le_Suc_ex not_less)
    then have "encrypt_blocks enc (int k) data n (int i) acc = Some (Returned (Inr acc))" by (simp only: encrypt_end)
    then show ?thesis by blast
  qed
qed

lemma encrypt_large_result:
  "\<exists>r. EncryptLargeData rand data P = Some r \<and> ((\<exists>s. r = Panicked s) \<longleftrightarrow> Size (pub_N P) < 11 \<and> data \<noteq> [])"
proof -
  let ?k = "Size (pub_N P)"
  define enc where "enc = (\<lambda>n block. EncryptData (rand n) block P)"
  consider "length data + 11 \<le> ?k" | "\<not> length data + 11 \<le> ?k" "11 < ?k" | "\<not> length data + 11 \<le> ?k" "?k = 11"
    | "?k < 11" by linarith
  then show ?thesis
  proof cases
    case 1
    then have "int (length data) \<le> int ?k - 11" by linarith
    then show ?thesis using 1 by (simp add: EncryptLargeData_def)
  next
    case 2
    then have no: "\<not> int (length data) \<le> int (?k - 11)" and k: "int ?k - 11 = int (?k - 11)" "0 < ?k - 11" by linarith+
    have "EncryptLargeData rand data P = encrypt_blocks enc (int (?k - 11)) data 0 (int 0) []"
      unfolding EncryptLargeData_def Let_def k(1) if_not_P [OF no] enc_def by simp
    then show ?thesis using encrypt_blocks_returns [OF k(2), of enc data 0 0 "[]"] 2 by auto
  next
    case 3
    then have no: "\<not> int (length data) \<le> int ?k - 11" and pos: "0 < length data" by linarith+
    have "BitLen (pub_N P) < 1024" using 3(2) unfolding Size_def by linarith
    then have "EncryptData (rand 0) (take 0 (drop 0 data)) P = Inl rsa_key_too_short"
      by (simp add: EncryptData_def EncryptPKCS1v15_def)
    with pos have "encrypt_blocks enc (int 0) data 0 (int 0) [] = Some (Returned (Inl (EncryptBlock rsa_key_too_short)))"
      by (intro encrypt_fails) (simp_all add: enc_def)
    then have "EncryptLargeData rand data P = Some (Returned (Inl (EncryptBlock rsa_key_too_short)))"
      unfolding EncryptLargeData_def Let_def if_not_P [OF no] using 3(2) by (simp add: enc_def)
    then show ?thesis using 3(2) by simp
  next
    case 4
    then have no: "\<not> int (length data) \<le> int ?k - 11" and neg: "int ?k - 11 < 0" by linarith+
    have "EncryptLargeData rand data P = encrypt_blocks enc (int ?k - 11) data 0 0 []"
      unfolding EncryptLargeData_def Let_def if_not_P [OF no] enc_def by (rule refl)
    then show ?thesis using 4 neg by (simp add: encrypt_blocks.simps [of enc])
  qed
qed

text \<open>A ciphertext is never empty.\<close>

lemma EncryptData_length:
  assumes "EncryptData r data P = Inr c"
  shows "length c = Size (pub_N P) \<and> 128 \<le> Size (pub_N P)"
proof -
  have "length c = Size (pub_N P)" and "1024 \<le> BitLen (pub_N P)"
    using assms by (auto simp: EncryptData_def EncryptPKCS1v15_def Let_def split: if_splits)
  then show ?thesis unfolding Size_def by linarith
qed

lemma encrypt_blocks_prefix:
  assumes "0 < k" and "encrypt_blocks enc (int k) data n (int i) acc = Some (Returned (Inr ct))"
  shows "\<exists>s. ct = acc @ s"
  using assms(2)
proof (induction "length data - i" arbitrary: i n acc rule: less_induct)
  case less
  show ?case
  proof (cases "i < length data")
    case True
    then have lt: "length data - (i + k) < length data - i" using assms by simp
    show ?thesis
    proof (cases "enc n (take k (drop i data))")
      case (Inl e)
      then show ?thesis using encrypt_fails [where enc = enc and k = k, OF True Inl, of acc] less.prems by simp
    next
      case (Inr c)
      have "encrypt_blocks enc (int k) data (Suc n) (int (i + k)) (acc @ c) = Some (Returned (Inr ct))"
        using less.prems unfolding encrypt_step [where enc = enc and k = k, OF True Inr] .
      from less.hyps [OF lt this] show ?thesis by auto
    qed
  next
    case False
    then obtain j where "i = length data + j" by (metis le_Suc_ex not_less)
    then have "encrypt_blocks enc (int k) data n (int i) acc = Some (Returned (Inr acc))" by (simp only: encrypt_end)
    then show ?thesis using less.prems by simp
  qed
qed

lemma EncryptLargeData_nonempty:
  assumes "EncryptLargeData rand data P = Some (Returned (Inr ct))" and "data \<noteq> []"
  shows "ct \<noteq> []"
proof (cases "int (length data) \<le> int (Size (pub_N P)) - 11")
  case True
  then have "EncryptData (rand 0) data P = Inr ct" using assms(1) by (auto simp: EncryptLargeData_def split: sum.splits)
  from EncryptData_length [OF this] show ?thesis by auto
next
  case False
  define enc where "enc = (\<lambda>n block. EncryptData (rand n) block P)"
  define k where "k = Size (pub_N P) - 11"
  have all: "encrypt_blocks enc (int (Size (pub_N P)) - 11) data 0 0 [] = Some (Returned (Inr ct))"
    using assms(1) False by (simp add: EncryptLargeData_def enc_def)
  then obtain hi b where "enc 0 (slice 0 hi data) = Inr b"
    using assms(2) by (subst (asm) encrypt_blocks.simps) (auto simp: Let_def split: if_splits sum.splits)
  with EncryptData_length have "128 \<le> Size (pub_N P)" by (simp add: enc_def)
  then have k: "int (Size (pub_N P)) - 11 = int k" "0 < k" by (simp_all add: k_def)
  have "0 < length data" using assms(2) by simp
  show ?thesis
  proof (cases "enc 0 (take k (drop 0 data))")
    case (Inl e)
    then show ?thesis using encrypt_fails [where enc = enc and k = k and i = 0, OF \<open>0 < length data\<close> Inl, of "[]"] all k by simp
  next
    case (Inr c)
    have "encrypt_blocks enc (int k) data (Suc 0) (int (0 + k)) ([] @ c) = Some (Returned (Inr ct))"
      using all unfolding k encrypt_step [where enc = enc and k = k and i = 0, OF \<open>0 < length data\<close> Inr, of "[]", symmetric] by simp
    from encrypt_blocks_prefix [OF k(2) this] show ?thesis
      using EncryptData_length [of "rand 0" "take k data" P c] Inr by (auto simp: enc_def)
  qed
qed

section \<open>Files with keys\<close>

lemma write_pem_files:
  assumes "write_pem KL f b fs = (None, fs')"
  shows "files fs' = (files fs)(f \<mapsto> pem_Encode KL b)" "open_error fs' = open_error fs"
  using assms by (auto simp: write_pem_def os_create_def file_write_def Let_def split: option.splits)

text \<open>
  The documented laws of the PEM and x509 codecs, for the block types and the keys the program
  writes; the generator only gives keys of at least 1024 bits whose parts fit together.
\<close>

definition key_laws :: "keylib \<Rightarrow> bool" where
  "key_laws KL \<longleftrightarrow>
     (\<forall>t bs. CHR 0x0A \<notin> set t \<longrightarrow>
        pem_Decode KL (pem_Encode KL \<lparr>blockType = t, blockBytes = bs\<rparr>) = Some \<lparr>blockType = t, blockBytes = bs\<rparr>)
     \<and> (\<forall>bits K. rsa_GenerateKey KL bits = Inr K \<longrightarrow> valid_key K
        \<and> ParsePKCS1PrivateKey KL (MarshalPKCS1PrivateKey KL K) = Inr K
        \<and> (\<forall>b. MarshalPKIXPublicKey KL (public_part K) = Inr b \<longrightarrow> ParsePKIXPublicKey KL b = Inr (RSAKey (public_part K))))"

lemma load_saved_private:
  assumes "key_laws KL" and "rsa_GenerateKey KL bits = Inr K" and "open_error fs f = None"
    and "files fs f = Some (pem_Encode KL \<lparr>blockType = ''RSA PRIVATE KEY'', blockBytes = MarshalPKCS1PrivateKey KL K\<rparr>)"
  shows "LoadPrivateKey KL fs f = Inr K"
  using assms by (simp add: LoadPrivateKey_def os_open_def key_laws_def)

lemma load_saved_public:
  assumes "key_laws KL" and "rsa_GenerateKey KL bits = Inr K" and "open_error fs f = None"
    and "MarshalPKIXPublicKey KL (public_part K) = Inr b"
    and "files fs f = Some (pem_Encode KL \<lparr>blockType = ''PUBLIC KEY'', blockBytes = b\<rparr>)"
  shows "LoadPublicKey KL fs f = Inr (public_part K)"
  using assms by (simp add: LoadPublicKey_def os_open_def key_laws_def)

lemma saved_keys_load:
  assumes "key_laws KL" and "GenerateKeyPair KL bits = Inr (K, P)"
    and "SavePrivateKeyToFile KL f K fs = (None, fsx)" and "SavePublicKeyToFile KL g P fsx = (None, fsy)"
    and "f \<noteq> g" and "open_error fs = (\<lambda>_. None)"
  shows "LoadPrivateKey KL fsy f = Inr K" and "LoadPublicKey KL fsy g = Inr P"
proof -
  from assms(2) have gen: "rsa_GenerateKey KL bits = Inr K" and P: "P = public_part K"
    by (auto simp: GenerateKeyPair_def split: sum.splits)
  from assms(4) obtain b where b: "MarshalPKIXPublicKey KL P = Inr b"
    and g: "write_pem KL g \<lparr>blockType = ''PUBLIC KEY'', blockBytes = b\<rparr> fsx = (None, fsy)"
    by (auto simp: SavePublicKeyToFile_def split: sum.splits)
  note fx = write_pem_files [OF assms(3) [unfolded SavePrivateKeyToFile_def]] and fy = write_pem_files [OF g]
  show "LoadPrivateKey KL fsy f = Inr K" and "LoadPublicKey KL fsy g = Inr P"
    using assms(5,6) fx fy b P
    by (auto intro!: load_saved_private [OF assms(1) gen] load_saved_public [OF assms(1) gen])
qed

definition sample_keylib :: keylib where
  "sample_keylib = \<lparr>
     pem_Decode = (\<lambda>b. Some \<lparr>blockType = takeWhile (\<lambda>c. c \<noteq> CHR 0x0A) b, blockBytes = tl (dropWhile (\<lambda>c. c \<noteq> CHR 0x0A) b)\<rparr>),
     pem_Encode = (\<lambda>b. blockType b @ CHR 0x0A # blockBytes b),
     ParsePKIXPublicKey = (\<lambda>b. if b = ''public'' then Inr (RSAKey (public_part sample_key)) else Inl (TextErr ''asn1'')),
     ParsePKCS1PublicKey = (\<lambda>b. Inl (TextErr ''asn1'')),
     ParsePKCS8PrivateKey = (\<lambda>b. Inl (TextErr ''asn1'')),
     ParsePKCS1PrivateKey = (\<lambda>b. if b = ''private'' then Inr sample_key else Inl (TextErr ''asn1'')),
     MarshalPKCS1PrivateKey = (\<lambda>_. ''private''),
     MarshalPKIXPublicKey = (\<lambda>_. Inr ''public''),
     rsa_GenerateKey = (\<lambda>bits. if bits < 1024 then Inl rsa_key_too_short else Inr sample_key)\<rparr>"

lemma sample_keylib_laws: "key_laws sample_keylib"
  using sample_key_valid
  by (auto simp: key_laws_def sample_keylib_def takeWhile_append takeWhile_eq_all_conv dropWhile_append split: if_splits)

section \<open>Properties\<close>

text \<open>
  C19: keys that were generated and saved to two files are read back by the loaders, and then
  whatever is encrypted with the public key, of any length and with any random padding, is
  decrypted by the private key to the same bytes.
\<close>

theorem saved_keys_decrypt:
  assumes "key_laws KL" and "GenerateKeyPair KL bits = Inr (K, P)"
    and "SavePrivateKeyToFile KL f K fs = (None, fsx)" and "SavePublicKeyToFile KL g P fsx = (None, fsy)"
    and "f \<noteq> g" and "open_error fs = (\<lambda>_. None)"
  shows "LoadPrivateKey KL fsy f = Inr K \<and> LoadPublicKey KL fsy g = Inr P
    \<and> (\<exists>ct. EncryptLargeData rand data P = Some (Returned (Inr ct)) \<and> DecryptLargeData ct K = Some (Returned (Inr data)))"
proof -
  have "P = public_part K" "valid_key K"
    using assms(1,2) by (auto simp: GenerateKeyPair_def key_laws_def split: sum.splits)
  with saved_keys_load [OF assms] large_roundtrip [of K rand data] show ?thesis by simp
qed

theorem saved_keys_decrypt_witness:
  "LoadPublicKey sample_keylib (snd (SavePublicKeyToFile sample_keylib ''p'' (public_part sample_key)
     (snd (SavePrivateKeyToFile sample_keylib ''k'' sample_key (disk Map.empty))))) ''p'' = Inr (public_part sample_key)"
  using saved_keys_decrypt [OF sample_keylib_laws, of 2048 sample_key "public_part sample_key" "''k''" "disk Map.empty"
      "snd (SavePrivateKeyToFile sample_keylib ''k'' sample_key (disk Map.empty))" "''p''"
      "snd (SavePublicKeyToFile sample_keylib ''p'' (public_part sample_key)
        (snd (SavePrivateKeyToFile sample_keylib ''k'' sample_key (disk Map.empty))))"]
  by (simp add: GenerateKeyPair_def SavePrivateKeyToFile_def SavePublicKeyToFile_def write_pem_def os_create_def
      file_write_def disk_def sample_keylib_def)

text \<open>
  C34: encryption of data of any length returns for every key, even one that no library would
  accept; it panics exactly for nonempty data and a modulus of fewer than 11 bytes, whose
  negative block size makes the slice bounds cross.
\<close>

theorem encrypt_large_outcome:
  "\<exists>r. EncryptLargeData rand data P = Some r \<and> ((\<exists>s. r = Panicked s) \<longleftrightarrow> Size (pub_N P) < 11 \<and> data \<noteq> [])"
  by (rule encrypt_large_result)

end
