(* ===== verification/Base64.thy ===== *)
theory Base64
  imports Prelude
begin

text \<open>
  What the program uses of package encoding/base64: StdEncoding, as the function that encodes a
  byte string and the one that decodes text, which skips line breaks, wants padding, and does
  not look at the unused low bits of the last digit. Decoding inverts encoding.
\<close>

section \<open>Digits\<close>

text \<open>The alphabet: A to Z, a to z, 0 to 9, plus, slash.\<close>

definition b64_digit :: "nat \<Rightarrow> char" where
  "b64_digit n = (let m = n mod 64 in
     char_of (if m < 26 then m + 65 else if m < 52 then m + 71 else if m < 62 then m - 4 else if m = 62 then 43 else 47))"

definition b64_value :: "char \<Rightarrow> nat option" where
  "b64_value c = (let n = of_char c :: nat in
     if 65 \<le> n \<and> n \<le> 90 then Some (n - 65)
     else if 97 \<le> n \<and> n \<le> 122 then Some (n - 71)
     else if 48 \<le> n \<and> n \<le> 57 then Some (n + 4)
     else if n = 43 then Some 62
     else if n = 47 then Some 63
     else None)"

lemma b64_digit_code:
  "of_char (b64_digit n) = (let m = n mod 64 in
     if m < 26 then m + 65 else if m < 52 then m + 71 else if m < 62 then m - 4 else if m = 62 then 43 else (47 :: nat))"
  by (simp add: b64_digit_def Let_def)

lemma b64_digit_value [simp]: "b64_value (b64_digit n) = Some (n mod 64)"
proof -
  obtain m where m: "n mod 64 = m" "m < 64" by simp
  consider "m < 26" | "26 \<le> m" "m < 52" | "52 \<le> m" "m < 62" | "m = 62" | "m = 63" using m(2) by linarith
  then show ?thesis unfolding b64_value_def b64_digit_code Let_def m(1) by cases auto
qed

lemma b64_digit_plain [simp]: "b64_digit n \<noteq> CHR ''=''" "b64_digit n \<noteq> CHR 0x0A" "b64_digit n \<noteq> CHR 0x0D"
proof -
  have "n mod 64 < 64" by simp
  then have "of_char (b64_digit n) \<notin> {61, 10, 13 :: nat}" unfolding b64_digit_code Let_def by auto
  then show "b64_digit n \<noteq> CHR ''=''" "b64_digit n \<noteq> CHR 0x0A" "b64_digit n \<noteq> CHR 0x0D" by auto
qed

section \<open>Encoding\<close>

definition join3 :: "char \<Rightarrow> char \<Rightarrow> char \<Rightarrow> nat" where
  "join3 a b c = (of_char a * 256 + of_char b) * 256 + of_char c"

definition join4 :: "nat \<Rightarrow> nat \<Rightarrow> nat \<Rightarrow> nat \<Rightarrow> nat" where
  "join4 a b c d = ((a * 64 + b) * 64 + c) * 64 + d"

fun base64_encode :: "bytes \<Rightarrow> string" where
  "base64_encode (a # b # c # s) =
     (let n = join3 a b c
      in b64_digit (n div 262144) # b64_digit (n div 4096) # b64_digit (n div 64) # b64_digit n # base64_encode s)"
| "base64_encode [a, b] =
     (let n = join3 a b (CHR 0x00)
      in [b64_digit (n div 262144), b64_digit (n div 4096), b64_digit (n div 64), CHR ''=''])"
| "base64_encode [a] =
     (let n = join3 a (CHR 0x00) (CHR 0x00) in [b64_digit (n div 262144), b64_digit (n div 4096), CHR ''='', CHR ''=''])"
| "base64_encode [] = []"

section \<open>Decoding\<close>

fun b64_quanta :: "string \<Rightarrow> bytes option" where
  "b64_quanta [] = Some []"
| "b64_quanta (w # x # y # z # s) =
     (case (b64_value w, b64_value x) of
        (Some a, Some b) \<Rightarrow>
          (if y = CHR ''='' then
             (if z = CHR ''='' \<and> s = [] then Some [char_of (join4 a b 0 0 div 65536)] else None)
           else (case b64_value y of
              None \<Rightarrow> None
            | Some c \<Rightarrow>
                (if z = CHR ''='' then
                   (if s = [] then (let n = join4 a b c 0 in Some [char_of (n div 65536), char_of (n div 256 mod 256)]) else None)
                 else (case b64_value z of
                    None \<Rightarrow> None
                  | Some d \<Rightarrow>
                      (let n = join4 a b c d
                       in map_option (\<lambda>r. char_of (n div 65536) # char_of (n div 256 mod 256) # char_of (n mod 256) # r)
                            (b64_quanta s))))))
      | _ \<Rightarrow> None)"
| "b64_quanta _ = None"

definition base64_decode :: "string \<Rightarrow> bytes option" where
  "base64_decode s = b64_quanta (filter (\<lambda>c. c \<noteq> CHR 0x0A \<and> c \<noteq> CHR 0x0D) s)"

lemma encode_plain: "filter (\<lambda>c. c \<noteq> CHR 0x0A \<and> c \<noteq> CHR 0x0D) (base64_encode s) = base64_encode s"
  by (induction s rule: base64_encode.induct) (simp_all add: Let_def)

lemma join4_digits:
  assumes "n < 16777216"
  shows "join4 (n div 262144 mod 64) (n div 4096 mod 64) (n div 64 mod 64) (n mod 64) = n"
proof -
  define x y z where "x = n div 64" and "y = x div 64" and "z = y div 64"
  have parts: "n div 4096 = y" "n div 262144 = z" by (simp_all add: x_def y_def z_def div_mult2_eq [symmetric])
  have "n div 262144 < 64" using assms by (simp add: less_mult_imp_div_less)
  then have z: "z mod 64 = z" using parts(2) by simp
  have "x * 64 + n mod 64 = n" "y * 64 + x mod 64 = x" "z * 64 + y mod 64 = y"
    unfolding x_def y_def z_def by (rule div_mult_mod_eq)+
  then show ?thesis unfolding join4_def parts x_def [symmetric] z by simp
qed

lemma join3_bytes:
  "join3 a b c < 16777216" "char_of (join3 a b c div 65536) = a"
  "char_of (join3 a b c div 256 mod 256) = b" "char_of (join3 a b c mod 256) = c"
proof -
  have bound: "(x * 256 + y) * 256 + z < 16777216" if "x < 256" "y < 256" "z < 256" for x y z :: nat
  proof -
    have "x \<le> 255" "y \<le> 255" "z \<le> 255" using that by simp_all
    then have "(x * 256 + y) * 256 + z \<le> (255 * 256 + 255) * 256 + 255" by (intro add_mono mult_right_mono) simp_all
    then show ?thesis by simp
  qed
  show "join3 a b c < 16777216" unfolding join3_def by (rule bound) simp_all
  have q: "join3 a b c div 256 = of_char a * 256 + of_char b"
    unfolding join3_def by (subst div_mult_self3) simp_all
  have "join3 a b c div 65536 = join3 a b c div 256 div 256" by (simp add: div_mult2_eq [symmetric])
  then show "char_of (join3 a b c div 65536) = a" unfolding q by simp
  show "char_of (join3 a b c div 256 mod 256) = b" unfolding q by simp
  have "join3 a b c mod 256 = of_char c mod 256" unfolding join3_def by (rule mod_mult_self3)
  then show "char_of (join3 a b c mod 256) = c" by simp
qed

lemma join3_bytes' [simp]: "char_of (join3 a b c div 65536) = a" "char_of (join3 a b c div 256) = b" "char_of (join3 a b c) = c"
  using join3_bytes [of a b c] by simp_all

text \<open>With zero bytes at the end the last digits are zero, and padding stands for them.\<close>

lemma join3_zero:
  "join3 a b (CHR 0x00) mod 64 = 0" "join3 a (CHR 0x00) (CHR 0x00) div 64 mod 64 = 0"
  by (simp_all add: join3_def mod_eq_0_iff_dvd dvd_div_iff_mult)

lemma quanta_encode: "b64_quanta (base64_encode s) = Some s"
proof (induction s rule: base64_encode.induct)
  case (1 a b c s)
  then show ?case by (simp add: Let_def join4_digits join3_bytes(1))
next
  case (2 a b)
  have "join4 (join3 a b (CHR 0x00) div 262144 mod 64) (join3 a b (CHR 0x00) div 4096 mod 64)
      (join3 a b (CHR 0x00) div 64 mod 64) 0 = join3 a b (CHR 0x00)"
    using join4_digits [OF join3_bytes(1), of a b "CHR 0x00"] by (simp only: join3_zero)
  then show ?case by (simp add: Let_def)
next
  case (3 a)
  have "join4 (join3 a (CHR 0x00) (CHR 0x00) div 262144 mod 64) (join3 a (CHR 0x00) (CHR 0x00) div 4096 mod 64) 0 0
      = join3 a (CHR 0x00) (CHR 0x00)"
    using join4_digits [OF join3_bytes(1), of a "CHR 0x00" "CHR 0x00"] by (simp only: join3_zero)
  then show ?case by (simp add: Let_def)
qed simp

theorem base64_roundtrip: "base64_decode (base64_encode s) = Some s"
  by (simp add: base64_decode_def encode_plain quanta_encode)

end
