(* ===== verification/GoTime.thy ===== *)
theory GoTime
  imports GoFloat
begin

text \<open>
  Package time as far as the configuration uses it: \<^verbatim>\<open>time.ParseDuration\<close>, step by step with its
  overflow checks and its float64 arithmetic for fractions, and \<^verbatim>\<open>Duration.Seconds\<close>. The lemmas
  show that the text of a whole number of seconds parses to that number.
\<close>

section \<open>time.ParseDuration\<close>

fun leading_int :: "nat \<Rightarrow> string \<Rightarrow> (nat \<times> string) option" where
  "leading_int x [] = Some (x, [])"
| "leading_int x (c # cs) =
     (if is_digit c then
        (if 2 ^ 63 div 10 < x then None
         else (let y = 10 * x + digit_val c in if 2 ^ 63 < y then None else leading_int y cs))
      else Some (x, c # cs))"

fun leading_fraction :: "nat \<Rightarrow> rat \<Rightarrow> bool \<Rightarrow> string \<Rightarrow> nat \<times> rat \<times> string" where
  "leading_fraction x scale overflow [] = (x, scale, [])"
| "leading_fraction x scale overflow (c # cs) =
     (if is_digit c then
        (if overflow then leading_fraction x scale overflow cs
         else if (2 ^ 63 - 1) div 10 < x then leading_fraction x scale True cs
         else (let y = 10 * x + digit_val c in
           if 2 ^ 63 < y then leading_fraction x scale True cs
           else leading_fraction y (f64_round (scale * 10)) False cs))
      else (x, scale, c # cs))"

definition unit_of :: "string \<Rightarrow> nat option" where
  "unit_of u = map_of
     [(''ns'', 1), (''us'', 1000), ([CHR 0xC2, CHR 0xB5, CHR ''s''], 1000),
      ([CHR 0xCE, CHR 0xBC, CHR ''s''], 1000), (''ms'', 1000000), (''s'', 1000000000),
      (''m'', 60 * 1000000000), (''h'', 3600 * 1000000000)] u"

definition number_char :: "char \<Rightarrow> bool" where
  "number_char c \<longleftrightarrow> c = CHR ''.'' \<or> is_digit c"

definition duration_term :: "string \<Rightarrow> (nat \<times> string) option" where
  "duration_term s =
     (if s = [] \<or> \<not> number_char (hd s) then None
      else (case leading_int 0 s of
        None \<Rightarrow> None
      | Some (v, s1) \<Rightarrow>
         (let pre = (length s1 \<noteq> length s);
              (f, scale, s2, post) =
                (if s1 \<noteq> [] \<and> hd s1 = CHR ''.''
                 then (let (f, scale, s2) = leading_fraction 0 1 False (tl s1)
                       in (f, scale, s2, length s2 \<noteq> length (tl s1)))
                 else (0, 1, s1, False))
          in if \<not> pre \<and> \<not> post then None
             else (let u = takeWhile (\<lambda>c. \<not> number_char c) s2; s3 = dropWhile (\<lambda>c. \<not> number_char c) s2 in
               if u = [] then None
               else (case unit_of u of
                 None \<Rightarrow> None
               | Some unit \<Rightarrow>
                   if 2 ^ 63 div unit < v then None
                   else if 0 < f then
                     (let v2 = v * unit + nat \<lfloor>f64_round (f64_round (of_nat f) * f64_round (of_nat unit / scale))\<rfloor>
                      in if 2 ^ 63 < v2 then None else Some (v2, s3))
                   else Some (v * unit, s3))))))"

lemma leading_int_length: "leading_int x s = Some (v, r) \<Longrightarrow> length r \<le> length s"
  by (induction x s rule: leading_int.induct) (auto simp: Let_def split: if_splits)

lemma leading_fraction_length: "leading_fraction x sc b s = (f, sc', r) \<Longrightarrow> length r \<le> length s"
  by (induction x sc b s rule: leading_fraction.induct) (auto simp: Let_def split: if_splits)

lemma dropWhile_shorter: "takeWhile P s \<noteq> [] \<Longrightarrow> length (dropWhile P s) < length s"
  by (cases s) (auto simp: less_Suc_eq_le length_dropWhile_le split: if_splits)

lemma duration_term_shorter:
  assumes "duration_term s = Some (v, r)"
  shows "length r < length s"
proof -
  obtain v1 s1 where s1: "leading_int 0 s = Some (v1, s1)"
    using assms by (auto simp: duration_term_def split: if_splits option.splits)
  define q where "q = (if s1 \<noteq> [] \<and> hd s1 = CHR ''.''
    then (let (f, scale, s2) = leading_fraction 0 1 False (tl s1) in (f, scale, s2, length s2 \<noteq> length (tl s1)))
    else (0, 1, s1, False))"
  obtain f scale s2 post where q: "q = (f, scale, s2, post)" by (metis prod_cases4)
  have "length s2 \<le> length s1"
    using q leading_fraction_length [of 0 1 False "tl s1"] diff_le_self [of "length s1" 1]
    by (auto simp: q_def split: if_splits prod.splits intro: order_trans)
  moreover have "r = dropWhile (\<lambda>c. \<not> number_char c) s2 \<and> takeWhile (\<lambda>c. \<not> number_char c) s2 \<noteq> []"
    using assms unfolding duration_term_def s1 option.case prod.case q_def [symmetric] q
    by (simp add: Let_def split: if_splits option.splits)
  ultimately show ?thesis
    using dropWhile_shorter [of "\<lambda>c. \<not> number_char c" s2] leading_int_length [OF s1] by auto
qed

function duration_terms :: "nat \<Rightarrow> string \<Rightarrow> nat option" where
  "duration_terms d s =
     (if s = [] then Some d
      else (case duration_term s of
        None \<Rightarrow> None
      | Some (v, r) \<Rightarrow> if 2 ^ 63 < d + v then None else duration_terms (d + v) r))"
  by pat_completeness auto
termination
  by (relation "measure (length \<circ> snd)") (auto dest: duration_term_shorter)

declare duration_terms.simps [simp del]

definition ParseDuration :: "string \<Rightarrow> int64 option" where
  "ParseDuration s =
     (let (neg, s1) = (case s of [] \<Rightarrow> (False, s)
        | c # cs \<Rightarrow> if c = CHR ''-'' then (True, cs) else if c = CHR ''+'' then (False, cs) else (False, s))
      in if s1 = ''0'' then Some 0
         else if s1 = [] then None
         else (case duration_terms 0 s1 of
           None \<Rightarrow> None
         | Some d \<Rightarrow>
             if neg then Some (word_of_int (- int d))
             else if 2 ^ 63 - 1 < d then None else Some (word_of_int (int d))))"

section \<open>Duration.Seconds\<close>

definition signed_round :: "rat \<Rightarrow> rat" where
  "signed_round q = (if q < 0 then - f64_round (- q) else f64_round q)"

definition quot :: "int \<Rightarrow> int \<Rightarrow> int" where
  "quot a b = (if a < 0 then - (- a div b) else a div b)"

definition Seconds :: "int64 \<Rightarrow> rat" where
  "Seconds d = (let sec = quot (sint d) 1000000000; nsec = sint d - sec * 1000000000
     in signed_round (signed_round (of_int sec) + signed_round (of_int nsec / 1000000000)))"

text \<open>The conversion of a float64 to int truncates.\<close>

definition trunc :: "rat \<Rightarrow> int" where
  "trunc q = (if q < 0 then - \<lfloor>- q\<rfloor> else \<lfloor>q\<rfloor>)"

section \<open>Whole numbers of seconds\<close>

lemma f64_round_int:
  assumes "0 \<le> n" and "n < 2 ^ 53"
  shows "f64_round (of_int n) = of_int n"
proof (cases "n = 0")
  case False
  then have pos: "0 < n" using assms(1) by simp
  obtain L where L: "bit_len n = Suc L" and lo: "2 ^ L \<le> n" and hi: "n < 2 ^ Suc L"
    using bit_len_bounds [OF pos] by (cases "bit_len n") auto
  have L53: "L < 53" using power_less_imp_less_exp [of "2 :: int" L 53] lo assms(2) by simp
  have b1: "bit_len 1 = 1" by (simp add: bit_len.simps)
  have le: "two_pow (int L) \<le> of_int n" 
  proof -
    have "(of_int (2 ^ L) :: rat) \<le> of_int n" using lo by (simp only: of_int_le_iff)
    then show ?thesis by (simp add: two_pow_def)
  qed
  show ?thesis
  proof (cases "L = 52")
    case True
    then show ?thesis using False le b1 L by (simp add: f64_round_def two_pow_def)
  next
    case neq: False
    then have "two_pow (int L - 52) = 1 / 2 ^ (52 - L)" and "nat (52 - int L) = 52 - L"
      using L53 by (simp_all add: two_pow_def nat_diff_distrib)
    then show ?thesis using False le b1 L L53 neq by (simp add: f64_round_def)
  qed
qed (simp add: f64_round_def)

text \<open>Reading the digits of a number that fits stops at the first character after them.\<close>

lemma parse_digits_mono: "parse_digits a ds = Some n \<Longrightarrow> a \<le> n"
  by (induction ds arbitrary: a) (force split: if_splits)+

lemma leading_int_digits:
  assumes "parse_digits a ds = Some n" and "n \<le> 2 ^ 63" and "r = [] \<or> \<not> is_digit (hd r)"
  shows "leading_int a (ds @ r) = Some (n, r)"
  using assms(1)
proof (induction ds arbitrary: a)
  case Nil
  then show ?case using assms(3) by (cases r) auto
next
  case (Cons d ds)
  then have d: "is_digit d" and rest: "parse_digits (10 * a + digit_val d) ds = Some n"
    by (auto split: if_splits)
  have "10 * a + digit_val d \<le> n" using parse_digits_mono [OF rest] .
  then have "\<not> 2 ^ 63 div 10 < a" and "\<not> 2 ^ 63 < 10 * a + digit_val d"
    using assms(2) by auto
  then show ?case using d Cons.IH [OF rest] by (simp add: Let_def)
qed

lemma not_number_s [simp]: "\<not> number_char CHR ''s''" "\<not> is_digit CHR ''s''"
  by (simp_all add: number_char_def is_digit_def)

lemma unit_seconds [simp]: "unit_of ''s'' = Some 1000000000"
  by (simp add: unit_of_def)

lemma duration_term_seconds:
  assumes "n \<le> 2 ^ 63"
  shows "duration_term (dec_nat n @ ''s'') = (if n \<le> 9223372036 then Some (n * 1000000000, []) else None)"
proof -
  obtain c cs where c: "dec_nat n = c # cs" "is_digit c" using dec_nat_hd by blast
  have "leading_int 0 (dec_nat n @ ''s'') = Some (n, ''s'')"
    by (rule leading_int_digits [OF parse_digits_dec_nat assms]) simp
  then show ?thesis using c by (simp add: duration_term_def number_char_def)
qed

lemma ParseDuration_seconds:
  assumes "n \<le> 2 ^ 63"
  shows "ParseDuration (dec_nat n @ ''s'')
      = (if n \<le> 9223372036 then Some (word_of_int (int n * 1000000000)) else None)"
    and "ParseDuration (CHR ''-'' # dec_nat n @ ''s'')
      = (if n \<le> 9223372036 then Some (word_of_int (- (int n * 1000000000))) else None)"
proof -
  obtain c cs where c: "dec_nat n = c # cs" "is_digit c" using dec_nat_hd by blast
  then have sign: "c \<noteq> CHR ''-''" "c \<noteq> CHR ''+''" by auto
  have "dec_nat n @ ''s'' \<noteq> ''0''" using c by simp
  moreover have "dec_nat n @ ''s'' \<noteq> []" by simp
  moreover have "duration_terms 0 (dec_nat n @ ''s'') = (if n \<le> 9223372036 then Some (n * 1000000000) else None)"
    using duration_term_seconds [OF assms] by (subst duration_terms.simps) (simp add: duration_terms.simps [of _ "[]"])
  ultimately show "ParseDuration (dec_nat n @ ''s'')
      = (if n \<le> 9223372036 then Some (word_of_int (int n * 1000000000)) else None)"
    and "ParseDuration (CHR ''-'' # dec_nat n @ ''s'')
      = (if n \<le> 9223372036 then Some (word_of_int (- (int n * 1000000000))) else None)"
    using sign by (simp_all add: ParseDuration_def c(1))
qed

lemma quot_exact: "0 < b \<Longrightarrow> quot (a * b) b = a"
  by (simp add: quot_def flip: mult_minus_left)

lemma Seconds_exact:
  assumes "\<bar>i\<bar> \<le> 9223372036"
  shows "trunc (Seconds (word_of_int (i * 1000000000))) = i"
proof -
  have s: "sint (word_of_int (i * 1000000000) :: int64) = i * 1000000000"
    using assms by (subst signed_of_int) (simp add: signed_take_bit_int_eq_self)
  have "signed_round (of_int i) = of_int i"
  proof (cases "i < 0")
    case True
    then have "f64_round (of_int (- i)) = of_int (- i)" using assms by (intro f64_round_int) auto
    with True show ?thesis by (simp add: signed_round_def)
  next
    case False
    then show ?thesis using assms f64_round_int [of i] by (simp add: signed_round_def)
  qed
  moreover have "signed_round 0 = 0" by (simp add: signed_round_def f64_round_def)
  moreover have "trunc (of_int i) = i"
    by (simp add: trunc_def flip: of_int_minus)
  ultimately show ?thesis unfolding Seconds_def s by (simp add: quot_exact)
qed

lemma signed_round_nonpos: "q \<le> 0 \<Longrightarrow> signed_round q \<le> 0"
  using f64_round_nonneg(1) [of "- q"] by (auto simp: signed_round_def f64_round_def)

text \<open>The number of whole seconds never exceeds that of the longest duration, for all the rounding.\<close>
lemma Seconds_bound: "trunc (Seconds d) \<le> 9223372036"
proof (cases "sint d < 0")
  case True
  define x where "x = - sint d"
  have x: "0 < x" "sint d = - x" using True by (simp_all add: x_def)
  have "x div 1000000000 * 1000000000 \<le> x" by simp
  then have "sint d - quot (sint d) 1000000000 * 1000000000 \<le> 0" "quot (sint d) 1000000000 \<le> 0"
    using x by (simp_all add: quot_def pos_imp_zdiv_nonneg_iff)
  then have "Seconds d \<le> 0"
    unfolding Seconds_def Let_def
    by (intro signed_round_nonpos add_nonpos_nonpos divide_nonpos_pos) (simp_all only: of_int_le_0_iff)
  then have "trunc (Seconds d) \<le> 0" by (auto simp: trunc_def)
  then show ?thesis by simp
next
  case False
  have hi: "sint d < 2 ^ 63" using sint_less [of d] by simp
  define s n where "s = sint d div 1000000000" and "n = sint d mod 1000000000"
  have sn: "sint d = s * 1000000000 + n" "0 \<le> n" "n < 1000000000" "0 \<le> s" using False by (simp_all add: s_def n_def)
  then have s: "s \<le> 9223372036" "s * 1000000000 + n < 2 ^ 63" using hi by simp_all
  define r where "r = f64_round (of_int n / 1000000000)"
  have r: "0 \<le> r" "r * 2 ^ 53 \<le> of_int n / 1000000000 * (2 ^ 53 + 1)"
    using f64_round_nonneg [of "of_int n / 1000000000"] sn(2) by (simp_all add: r_def)
  have "Seconds d = f64_round (of_int s + r)"
    using False sn s(1) f64_round_int [of s] r(1)
    by (simp add: Seconds_def Let_def quot_def signed_round_def r_def flip: s_def)
  moreover have "f64_round (of_int s + r) * 2 ^ 53 \<le> (of_int s + r) * (2 ^ 53 + 1)"
    using f64_round_nonneg [of "of_int s + r"] sn r(1) by simp
  moreover have "(of_int (s * 1000000000 + n) :: rat) < of_int (2 ^ 63)" using s(2) by (simp only: of_int_less_iff)
  moreover have "(of_int n :: rat) < of_int 1000000000" using sn(3) by (simp only: of_int_less_iff)
  moreover have "x < 9223372037" if "x * 2 ^ 53 \<le> (S + r) * (2 ^ 53 + 1)" "S * 1000000000 + N < 2 ^ 63" "N < 1000000000"
    "r * 2 ^ 53 \<le> N / 1000000000 * (2 ^ 53 + 1)" for x S N :: rat
    using that by (simp add: field_simps)
  ultimately have "Seconds d < 9223372037" using r(2) by simp
  then show ?thesis by (simp add: trunc_def) linarith
qed

end
