(* ===== verification/GoFlag.thy ===== *)
theory GoFlag
  imports Prelude
begin

text \<open>
  Package flag as far as the programs use it: a flag set with string, integer and boolean flags
  parsed with ContinueOnError. The result is the list of assignments in the order of the command
  line, or an error; the programs give up on any error, so its text is not kept. The integer
  syntax is that of \<^verbatim>\<open>strconv.ParseInt(s, 0, 64)\<close>.
\<close>

section \<open>strconv.ParseBool and strconv.ParseInt with base 0\<close>

definition ParseBool :: "string \<Rightarrow> bool option" where
  "ParseBool s =
     (if s \<in> {''1'', ''t'', ''T'', ''TRUE'', ''true'', ''True''} then Some True
      else if s \<in> {''0'', ''f'', ''F'', ''FALSE'', ''false'', ''False''} then Some False
      else None)"

definition letter_lower :: "char \<Rightarrow> char" where
  "letter_lower c = lower_char c"

definition digit_of :: "char \<Rightarrow> nat option" where
  "digit_of c = (let l = (of_char (letter_lower c) :: nat) in
     if is_digit c then Some (digit_val c)
     else if 97 \<le> l \<and> l \<le> 122 then Some (l - 97 + 10) else None)"

text \<open>Digits of a base, underscores skipped.\<close>

fun base_digits :: "nat \<Rightarrow> nat \<Rightarrow> string \<Rightarrow> nat option" where
  "base_digits b acc [] = Some acc"
| "base_digits b acc (c # cs) =
     (if c = CHR ''_'' then base_digits b acc cs
      else (case digit_of c of
        None \<Rightarrow> None
      | Some d \<Rightarrow> if b \<le> d then None else base_digits b (b * acc + d) cs))"

text \<open>\<^verbatim>\<open>underscoreOK\<close>: the last character seen is a digit (or prefix), an underscore or another one.\<close>

datatype seen = SeenStart | SeenDigit | SeenUnderscore | SeenOther

fun underscores_ok :: "bool \<Rightarrow> seen \<Rightarrow> string \<Rightarrow> bool" where
  "underscores_ok hex i [] = (i \<noteq> SeenUnderscore)"
| "underscores_ok hex i (c # cs) =
     (if is_digit c \<or> hex \<and> letter_lower c \<in> {CHR ''a'', CHR ''b'', CHR ''c'', CHR ''d'', CHR ''e'', CHR ''f''}
        then underscores_ok hex SeenDigit cs
      else if c = CHR ''_'' then i = SeenDigit \<and> underscores_ok hex SeenUnderscore cs
      else i \<noteq> SeenUnderscore \<and> underscores_ok hex SeenOther cs)"

definition base_of :: "string \<Rightarrow> nat \<times> string \<times> bool" where
  "base_of s = (case s of
     a # b # r \<Rightarrow>
       (if a = CHR ''0'' \<and> r \<noteq> [] \<and> letter_lower b = CHR ''b'' then (2, r, True)
        else if a = CHR ''0'' \<and> r \<noteq> [] \<and> letter_lower b = CHR ''o'' then (8, r, True)
        else if a = CHR ''0'' \<and> r \<noteq> [] \<and> letter_lower b = CHR ''x'' then (16, r, True)
        else if a = CHR ''0'' then (8, b # r, False)
        else (10, s, False))
   | [a] \<Rightarrow> if a = CHR ''0'' then (8, [], False) else (10, s, False)
   | [] \<Rightarrow> (10, s, False))"

definition parse_uint0 :: "string \<Rightarrow> nat option" where
  "parse_uint0 s =
     (if s = [] then None
      else (case base_of s of (b, r, prefixed) \<Rightarrow>
        (case base_digits b 0 r of
           None \<Rightarrow> None
         | Some n \<Rightarrow>
             if CHR ''_'' \<in> set r \<and>
               \<not> (if prefixed then underscores_ok (b = 16) SeenDigit r else underscores_ok False SeenStart s)
             then None else Some n)))"

definition parse_int0 :: "string \<Rightarrow> int64 option" where
  "parse_int0 s = (case s of [] \<Rightarrow> None | c # cs \<Rightarrow>
     (let neg = (c = CHR ''-''); u = (if c = CHR ''-'' \<or> c = CHR ''+'' then cs else s) in
      case parse_uint0 u of
        None \<Rightarrow> None
      | Some n \<Rightarrow>
          if \<not> neg \<and> 2 ^ 63 \<le> n then None
          else if neg \<and> 2 ^ 63 < n then None
          else Some (word_of_int (if neg then - int n else int n))))"

section \<open>FlagSet.Parse\<close>

datatype flag_kind = StringFlag | IntFlag | BoolFlag
datatype flag_value = StringV string | IntV int64 | BoolV bool

definition flag_set :: "flag_kind \<Rightarrow> string \<Rightarrow> flag_value option" where
  "flag_set k v = (case k of
     StringFlag \<Rightarrow> Some (StringV v)
   | IntFlag \<Rightarrow> map_option IntV (parse_int0 v)
   | BoolFlag \<Rightarrow> map_option BoolV (ParseBool v))"

text \<open>The name and the value after an equals sign, which is looked for from the second character on.\<close>

definition split_flag :: "string \<Rightarrow> string \<times> string option" where
  "split_flag s = (let name = hd s # takeWhile (\<lambda>c. c \<noteq> CHR ''='') (tl s);
     rest = dropWhile (\<lambda>c. c \<noteq> CHR ''='') (tl s)
     in (name, if rest = [] then None else Some (tl rest)))"

fun parse_args :: "(string \<rightharpoonup> flag_kind) \<Rightarrow> string list \<Rightarrow> (string \<times> flag_value) list option" where
  "parse_args known [] = Some []"
| "parse_args known (s # args) =
     (if length s < 2 \<or> hd s \<noteq> CHR ''-'' then Some []
      else if s = ''--'' then Some []
      else (let body = (if hd (tl s) = CHR ''-'' then tl (tl s) else tl s) in
        if body = [] \<or> hd body = CHR ''-'' \<or> hd body = CHR ''='' then None
        else (case split_flag body of (name, value) \<Rightarrow>
          (case known name of
             None \<Rightarrow> None
           | Some BoolFlag \<Rightarrow>
               (case flag_set BoolFlag (case value of None \<Rightarrow> ''true'' | Some v \<Rightarrow> v) of
                  None \<Rightarrow> None
                | Some fv \<Rightarrow> map_option (Cons (name, fv)) (parse_args known args))
           | Some k \<Rightarrow>
               (case value of
                  Some v \<Rightarrow>
                    (case flag_set k v of
                       None \<Rightarrow> None
                     | Some fv \<Rightarrow> map_option (Cons (name, fv)) (parse_args known args))
                | None \<Rightarrow>
                    (case args of
                       [] \<Rightarrow> None
                     | v # args' \<Rightarrow>
                         (case flag_set k v of
                            None \<Rightarrow> None
                          | Some fv \<Rightarrow> map_option (Cons (name, fv)) (parse_args known args'))))))))"

text \<open>\<^verbatim>\<open>os.Args\<close> of a test binary: the programs then do not parse flags at all.\<close>

definition is_test_binary :: "string list \<Rightarrow> bool" where
  "is_test_binary args = (case args of
     [] \<Rightarrow> False
   | a # _ \<Rightarrow> a = ''test'' \<or> 5 < length a \<and> drop (length a - 5) a = ''.test'')"

end
