(* ===== verification/Config.thy ===== *)
theory Config
  imports GoTime GoFlag
begin

text \<open>
  \<^verbatim>\<open>internal/config/json.go\<close> and \<^verbatim>\<open>internal/config/config.go\<close>: the server's configuration from command
  line flags, environment variables and a JSON file. The process environment (arguments,
  variables, files) is a parameter, and so is the decoding of a JSON file into the structure
  of optional fields; every error return is a constructor of \<open>config_error\<close>.
\<close>

section \<open>The process environment\<close>

record osenv =
  Args :: "string list"
  Getenv :: "string \<Rightarrow> string"          \<comment> \<open>empty when the variable is not set\<close>
  ReadFile :: "string \<Rightarrow> goerror + bytes"

section \<open>json.go\<close>

datatype config_error =
    BadFlags
  | NoFile string goerror
  | BadJSON string
  | EmptyDuration
  | BadDuration string
  | DurationNotPositive string
  | BadInterval string config_error
  | NegativeStoreInterval int
  | BadRateLimit string
  | NotPositive string

record AgentJSONConfig =
  a_Address :: "string option"
  a_ReportInterval :: "string option"
  a_PollInterval :: "string option"
  a_CryptoKey :: "string option"

record ServerJSONConfig =
  s_Address :: "string option"
  s_Restore :: "bool option"
  s_StoreInterval :: "string option"
  s_StoreFile :: "string option"
  s_DatabaseDSN :: "string option"
  s_CryptoKey :: "string option"

definition empty_agent_json :: AgentJSONConfig where
  "empty_agent_json = \<lparr>a_Address = None, a_ReportInterval = None, a_PollInterval = None, a_CryptoKey = None\<rparr>"

definition empty_server_json :: ServerJSONConfig where
  "empty_server_json = \<lparr>s_Address = None, s_Restore = None, s_StoreInterval = None, s_StoreFile = None,
     s_DatabaseDSN = None, s_CryptoKey = None\<rparr>"

text \<open>The target keeps its value when no file is named.\<close>

definition LoadJSONFile :: "(bytes \<Rightarrow> 'a option) \<Rightarrow> osenv \<Rightarrow> string \<Rightarrow> 'a \<Rightarrow> config_error + 'a" where
  "LoadJSONFile unmarshal env filename target =
     (if filename = [] then Inr target
      else (case ReadFile env filename of
        Inl e \<Rightarrow> Inl (NoFile filename e)
      | Inr data \<Rightarrow>
          (case unmarshal data of None \<Rightarrow> Inl (BadJSON filename) | Some c \<Rightarrow> Inr c)))"

definition ParseDurationToSeconds :: "string \<Rightarrow> config_error + int" where
  "ParseDurationToSeconds durationStr =
     (if durationStr = [] then Inl EmptyDuration
      else (case ParseDuration durationStr of
        None \<Rightarrow> Inl (BadDuration durationStr)
      | Some duration \<Rightarrow>
          (let seconds = trunc (Seconds duration)
           in if seconds \<le> 0 then Inl (DurationNotPositive durationStr) else Inr seconds)))"

definition stringPtr :: "string \<Rightarrow> string option" where
  "stringPtr s = (if s = [] then None else Some s)"

definition boolPtr :: "bool \<Rightarrow> bool option" where
  "boolPtr b = Some b"

text \<open>A field is taken over when the target has none.\<close>

definition unless_set :: "'a option \<Rightarrow> 'a option \<Rightarrow> 'a option" where
  "unless_set mine other = (if mine = None \<and> other \<noteq> None then other else mine)"

definition ApplyToAgentConfig :: "AgentJSONConfig \<Rightarrow> AgentJSONConfig \<Rightarrow> AgentJSONConfig" where
  "ApplyToAgentConfig jsonCfg cfg = cfg\<lparr>
     a_Address := unless_set (a_Address cfg) (a_Address jsonCfg),
     a_ReportInterval := unless_set (a_ReportInterval cfg) (a_ReportInterval jsonCfg),
     a_PollInterval := unless_set (a_PollInterval cfg) (a_PollInterval jsonCfg),
     a_CryptoKey := unless_set (a_CryptoKey cfg) (a_CryptoKey jsonCfg)\<rparr>"

definition ApplyToServerConfig :: "ServerJSONConfig \<Rightarrow> ServerJSONConfig \<Rightarrow> ServerJSONConfig" where
  "ApplyToServerConfig jsonCfg cfg = cfg\<lparr>
     s_Address := unless_set (s_Address cfg) (s_Address jsonCfg),
     s_Restore := unless_set (s_Restore cfg) (s_Restore jsonCfg),
     s_StoreInterval := unless_set (s_StoreInterval cfg) (s_StoreInterval jsonCfg),
     s_StoreFile := unless_set (s_StoreFile cfg) (s_StoreFile jsonCfg),
     s_DatabaseDSN := unless_set (s_DatabaseDSN cfg) (s_DatabaseDSN jsonCfg),
     s_CryptoKey := unless_set (s_CryptoKey cfg) (s_CryptoKey jsonCfg)\<rparr>"

section \<open>config.go: flags\<close>

record Config =
  RunAddr :: string
  StoreInterval :: int
  FileStoragePath :: string
  Restore :: bool
  DatabaseDSN :: string
  Key :: string
  CryptoKey :: string

record serverFlagValues =
  runAddr :: string
  storeInterval :: int64
  fileStoragePath :: string
  restore :: bool
  databaseDSN :: string
  flag_key :: string
  cryptoKey :: string
  configFile :: string

definition default_addr :: string where
  "default_addr = ''localhost:8080''"

definition default_file :: string where
  "default_file = ''/tmp/metrics-db.json''"

definition default_server_flags :: serverFlagValues where
  "default_server_flags = \<lparr>runAddr = default_addr, storeInterval = 300, fileStoragePath = default_file,
     restore = True, databaseDSN = [], flag_key = [], cryptoKey = [], configFile = []\<rparr>"

definition server_flag_kinds :: "string \<rightharpoonup> flag_kind" where
  "server_flag_kinds = map_of [(''a'', StringFlag), (''i'', IntFlag), (''f'', StringFlag), (''r'', BoolFlag),
     (''d'', StringFlag), (''k'', StringFlag), (''crypto-key'', StringFlag), (''c'', StringFlag), (''config'', StringFlag)]"

definition set_server_flag :: "string \<times> flag_value \<Rightarrow> serverFlagValues \<Rightarrow> serverFlagValues" where
  "set_server_flag a flags = (case a of
     (n, StringV v) \<Rightarrow>
       (if n = ''a'' then flags\<lparr>runAddr := v\<rparr>
        else if n = ''f'' then flags\<lparr>fileStoragePath := v\<rparr>
        else if n = ''d'' then flags\<lparr>databaseDSN := v\<rparr>
        else if n = ''k'' then flags\<lparr>flag_key := v\<rparr>
        else if n = ''crypto-key'' then flags\<lparr>cryptoKey := v\<rparr>
        else flags\<lparr>configFile := v\<rparr>)
   | (n, IntV v) \<Rightarrow> flags\<lparr>storeInterval := v\<rparr>
   | (n, BoolV v) \<Rightarrow> flags\<lparr>restore := v\<rparr>)"

definition parseServerFlags :: "osenv \<Rightarrow> config_error + serverFlagValues" where
  "parseServerFlags env =
     (if \<not> is_test_binary (Args env) \<and> 1 < length (Args env)
      then (case parse_args server_flag_kinds (tl (Args env)) of
          None \<Rightarrow> Inl BadFlags
        | Some assigns \<Rightarrow> Inr (fold set_server_flag assigns default_server_flags))
      else Inr default_server_flags)"

section \<open>config.go: the steps of Load\<close>

text \<open>The statement \<^verbatim>\<open>if c { x.f = ... }\<close>.\<close>

definition set_if :: "bool \<Rightarrow> ('a \<Rightarrow> 'a) \<Rightarrow> 'a \<Rightarrow> 'a" where
  "set_if c f x = (if c then f x else x)"

lemma set_if_field: "g (set_if c f x) = (if c then g (f x) else g x)"
  by (simp add: set_if_def)

lemma set_if_other: "(\<And>y. g (f y) = g y) \<Longrightarrow> g (set_if c f x) = g x"
  by (simp add: set_if_def)

lemmas set_if_server =
  set_if_field [of s_Address _ "\<lambda>x. x\<lparr>s_Address := v x\<rparr>" for v] set_if_other [of s_Address]
  set_if_field [of s_Restore _ "\<lambda>x. x\<lparr>s_Restore := v x\<rparr>" for v] set_if_other [of s_Restore]
  set_if_field [of s_StoreInterval _ "\<lambda>x. x\<lparr>s_StoreInterval := v x\<rparr>" for v] set_if_other [of s_StoreInterval]
  set_if_field [of s_StoreFile _ "\<lambda>x. x\<lparr>s_StoreFile := v x\<rparr>" for v] set_if_other [of s_StoreFile]
  set_if_field [of s_DatabaseDSN _ "\<lambda>x. x\<lparr>s_DatabaseDSN := v x\<rparr>" for v] set_if_other [of s_DatabaseDSN]
  set_if_field [of s_CryptoKey _ "\<lambda>x. x\<lparr>s_CryptoKey := v x\<rparr>" for v] set_if_other [of s_CryptoKey]

definition loadServerJSONConfig :: "(bytes \<Rightarrow> ServerJSONConfig option) \<Rightarrow> osenv \<Rightarrow> string \<Rightarrow> config_error + ServerJSONConfig" where
  "loadServerJSONConfig unmarshal env file =
     (let configFile = (if file = [] then Getenv env ''CONFIG'' else file)
      in if configFile \<noteq> [] then LoadJSONFile unmarshal env configFile empty_server_json
         else Inr empty_server_json)"

text \<open>An interval without a unit is a number of seconds.\<close>

definition interval_text :: "string \<Rightarrow> string option" where
  "interval_text v = (case parse_int64 v of Some _ \<Rightarrow> stringPtr (v @ ''s'') | None \<Rightarrow> stringPtr v)"

definition env_bool :: "string \<Rightarrow> bool option \<Rightarrow> bool option" where
  "env_bool v old =
     (if v = ''true'' \<or> v = ''1'' then boolPtr True
      else if v = ''false'' \<or> v = ''0'' then boolPtr False else old)"

definition applyServerEnvironmentVariables ::
  "osenv \<Rightarrow> ServerJSONConfig \<Rightarrow> serverFlagValues \<Rightarrow> ServerJSONConfig \<times> serverFlagValues" where
  "applyServerEnvironmentVariables env jc flags =
     (let g = Getenv env;
          jc = set_if (g ''ADDRESS'' \<noteq> []) (\<lambda>x. x\<lparr>s_Address := stringPtr (g ''ADDRESS'')\<rparr>) jc;
          jc = set_if (g ''STORE_INTERVAL'' \<noteq> []) (\<lambda>x. x\<lparr>s_StoreInterval := interval_text (g ''STORE_INTERVAL'')\<rparr>) jc;
          jc = set_if (g ''FILE_STORAGE_PATH'' \<noteq> []) (\<lambda>x. x\<lparr>s_StoreFile := stringPtr (g ''FILE_STORAGE_PATH'')\<rparr>) jc;
          jc = set_if (g ''RESTORE'' \<noteq> []) (\<lambda>x. x\<lparr>s_Restore := env_bool (g ''RESTORE'') (s_Restore x)\<rparr>) jc;
          jc = set_if (g ''DATABASE_DSN'' \<noteq> []) (\<lambda>x. x\<lparr>s_DatabaseDSN := stringPtr (g ''DATABASE_DSN'')\<rparr>) jc;
          flags = set_if (g ''KEY'' \<noteq> []) (\<lambda>x. x\<lparr>flag_key := g ''KEY''\<rparr>) flags;
          jc = set_if (g ''CRYPTO_KEY'' \<noteq> []) (\<lambda>x. x\<lparr>s_CryptoKey := stringPtr (g ''CRYPTO_KEY'')\<rparr>) jc
      in (jc, flags))"

definition applyServerFlags :: "osenv \<Rightarrow> serverFlagValues \<Rightarrow> ServerJSONConfig" where
  "applyServerFlags env flags =
     (let fc = empty_server_json;
          fc = set_if (runAddr flags \<noteq> ''localhost:8080'') (\<lambda>x. x\<lparr>s_Address := stringPtr (runAddr flags)\<rparr>) fc;
          fc = set_if (storeInterval flags \<noteq> 300) (\<lambda>x. x\<lparr>s_StoreInterval := stringPtr (fmt_d (storeInterval flags) @ ''s'')\<rparr>) fc;
          fc = set_if (fileStoragePath flags \<noteq> ''/tmp/metrics-db.json'') (\<lambda>x. x\<lparr>s_StoreFile := stringPtr (fileStoragePath flags)\<rparr>) fc;
          fc = set_if (Getenv env ''RESTORE'' \<noteq> []) (\<lambda>x. x\<lparr>s_Restore := env_bool (Getenv env ''RESTORE'') (s_Restore x)\<rparr>) fc;
          fc = set_if (databaseDSN flags \<noteq> []) (\<lambda>x. x\<lparr>s_DatabaseDSN := stringPtr (databaseDSN flags)\<rparr>) fc;
          fc = set_if (cryptoKey flags \<noteq> []) (\<lambda>x. x\<lparr>s_CryptoKey := stringPtr (cryptoKey flags)\<rparr>) fc
      in fc)"

definition buildServerConfig :: "ServerJSONConfig \<Rightarrow> serverFlagValues \<Rightarrow> config_error + Config" where
  "buildServerConfig fc flags =
     (let result = \<lparr>RunAddr = (case s_Address fc of Some a \<Rightarrow> a | None \<Rightarrow> ''localhost:8080''), StoreInterval = 300,
          FileStoragePath = (case s_StoreFile fc of Some f \<Rightarrow> f | None \<Rightarrow> ''/tmp/metrics-db.json''),
          Restore = (case s_Restore fc of Some r \<Rightarrow> r | None \<Rightarrow> True),
          DatabaseDSN = (case s_DatabaseDSN fc of Some d \<Rightarrow> d | None \<Rightarrow> []), Key = flag_key flags,
          CryptoKey = (case s_CryptoKey fc of Some c \<Rightarrow> c | None \<Rightarrow> [])\<rparr>
      in (case s_StoreInterval fc of
            None \<Rightarrow> Inr result
          | Some iv \<Rightarrow>
              (case ParseDurationToSeconds iv of
                 Inl e \<Rightarrow> Inl (BadInterval ''store_interval'' e)
               | Inr n \<Rightarrow> Inr (result\<lparr>StoreInterval := n\<rparr>))))"

definition validateServerConfig :: "Config \<Rightarrow> config_error option" where
  "validateServerConfig cfg =
     (if StoreInterval cfg < 0 then Some (NegativeStoreInterval (StoreInterval cfg)) else None)"

definition Load :: "(bytes \<Rightarrow> ServerJSONConfig option) \<Rightarrow> osenv \<Rightarrow> config_error + Config" where
  "Load unmarshal env =
     (case parseServerFlags env of
        Inl e \<Rightarrow> Inl e
      | Inr flags \<Rightarrow>
         (case loadServerJSONConfig unmarshal env (configFile flags) of
            Inl e \<Rightarrow> Inl e
          | Inr jsonConfig \<Rightarrow>
             (case applyServerEnvironmentVariables env jsonConfig flags of (jsonConfig, flags) \<Rightarrow>
               (let finalConfig = ApplyToServerConfig jsonConfig (applyServerFlags env flags) in
                case buildServerConfig finalConfig flags of
                  Inl e \<Rightarrow> Inl e
                | Inr result \<Rightarrow>
                   (case validateServerConfig result of
                      Some e \<Rightarrow> Inl e
                    | None \<Rightarrow> Inr result)))))"

section \<open>Intervals\<close>

text \<open>The text that is made of an integer flag parses to that integer, if it can be a duration.\<close>

lemma interval_roundtrip:
  "ParseDurationToSeconds (fmt_d i @ ''s'') =
    (if 0 < sint i \<and> sint i \<le> 9223372036 then Inr (sint i)
     else if \<bar>sint i\<bar> \<le> 9223372036 then Inl (DurationNotPositive (fmt_d i @ ''s''))
     else Inl (BadDuration (fmt_d i @ ''s'')))"
proof (cases "sint i < 0")
  case True
  have lo: "- (2 ^ 63) \<le> sint i" using sint_greater_eq [of i] by simp
  define n where "n = nat (- sint i)"
  have n: "sint i = - int n" "n \<le> 2 ^ 63" "0 < n" using True lo by (simp_all add: n_def)
  have "fmt_d i = CHR ''-'' # dec_nat n" using True by (simp add: fmt_d_def dec_int_def n_def)
  moreover have "trunc (Seconds (word_of_int (- int n * 1000000000))) = - int n" if "n \<le> 9223372036"
    using that by (intro Seconds_exact) simp
  ultimately show ?thesis
    using ParseDuration_seconds(2) [OF n(2)] n(1,3) by (auto simp: ParseDurationToSeconds_def Let_def)
next
  case False
  have hi: "sint i < 2 ^ 63" using sint_less [of i] by simp
  define n where "n = nat (sint i)"
  have n: "sint i = int n" "n \<le> 2 ^ 63" using False hi by (simp_all add: n_def)
  have "fmt_d i = dec_nat n" using False by (simp add: fmt_d_def dec_int_def n_def)
  moreover have "trunc (Seconds (word_of_int (int n * 1000000000))) = int n" if "n \<le> 9223372036"
    using that by (intro Seconds_exact) simp
  ultimately show ?thesis
    using ParseDuration_seconds(1) [OF n(2)] n(1) Seconds_exact [of 0] by (auto simp: ParseDurationToSeconds_def Let_def)
qed

lemma ParseDurationToSeconds_positive: "ParseDurationToSeconds s = Inr n \<Longrightarrow> 0 < n"
  by (auto simp: ParseDurationToSeconds_def Let_def split: if_splits option.splits)

lemma ParseDurationToSeconds_bound: "ParseDurationToSeconds s = Inr n \<Longrightarrow> n \<le> 9223372036"
  using Seconds_bound by (auto simp: ParseDurationToSeconds_def Let_def split: if_splits option.splits)

section \<open>Priorities\<close>

text \<open>
  The rule for a text setting: a flag that differs from its default and is not empty, else the
  environment variable if it is not empty, else the JSON file, else the default.
\<close>

definition resolve :: "string \<Rightarrow> string \<Rightarrow> string \<Rightarrow> string option \<Rightarrow> string" where
  "resolve flag_text dflt env_text json_text =
     (if flag_text \<noteq> dflt \<and> flag_text \<noteq> [] then flag_text
      else if env_text \<noteq> [] then env_text
      else (case json_text of Some v \<Rightarrow> v | None \<Rightarrow> dflt))"

lemma unless_set_simps [simp]: "unless_set None y = y" "unless_set (Some x) y = Some x" "unless_set z None = z"
  by (auto simp: unless_set_def)

lemma stringPtr_simps [simp]: "stringPtr [] = None" "stringPtr (c # s) = Some (c # s)" "s \<noteq> [] \<Longrightarrow> stringPtr s = Some s"
  by (simp_all add: stringPtr_def)

lemma unless_set_case: "unless_set x y = (case x of None \<Rightarrow> y | Some v \<Rightarrow> Some v)"
  by (cases x) simp_all

lemma applyServerFlags_fields:
  "s_Address (applyServerFlags env flags) = (if runAddr flags \<noteq> ''localhost:8080'' then stringPtr (runAddr flags) else None)"
  "s_StoreInterval (applyServerFlags env flags) = (if storeInterval flags \<noteq> 300 then stringPtr (fmt_d (storeInterval flags) @ ''s'') else None)"
  "s_StoreFile (applyServerFlags env flags) = (if fileStoragePath flags \<noteq> ''/tmp/metrics-db.json'' then stringPtr (fileStoragePath flags) else None)"
  "s_Restore (applyServerFlags env flags) = (if Getenv env ''RESTORE'' \<noteq> [] then env_bool (Getenv env ''RESTORE'') None else None)"
  "s_DatabaseDSN (applyServerFlags env flags) = (if databaseDSN flags \<noteq> [] then stringPtr (databaseDSN flags) else None)"
  "s_CryptoKey (applyServerFlags env flags) = (if cryptoKey flags \<noteq> [] then stringPtr (cryptoKey flags) else None)"
  unfolding applyServerFlags_def Let_def
  by (simp_all add: set_if_server empty_server_json_def)

lemma applyServerEnv_fields:
  assumes "applyServerEnvironmentVariables env jc flags = (jc', flags')"
  shows "s_Address jc' = (if Getenv env ''ADDRESS'' \<noteq> [] then stringPtr (Getenv env ''ADDRESS'') else s_Address jc)"
    and "s_StoreInterval jc' = (if Getenv env ''STORE_INTERVAL'' \<noteq> [] then interval_text (Getenv env ''STORE_INTERVAL'') else s_StoreInterval jc)"
    and "s_StoreFile jc' = (if Getenv env ''FILE_STORAGE_PATH'' \<noteq> [] then stringPtr (Getenv env ''FILE_STORAGE_PATH'') else s_StoreFile jc)"
    and "s_Restore jc' = (if Getenv env ''RESTORE'' \<noteq> [] then env_bool (Getenv env ''RESTORE'') (s_Restore jc) else s_Restore jc)"
    and "s_DatabaseDSN jc' = (if Getenv env ''DATABASE_DSN'' \<noteq> [] then stringPtr (Getenv env ''DATABASE_DSN'') else s_DatabaseDSN jc)"
    and "s_CryptoKey jc' = (if Getenv env ''CRYPTO_KEY'' \<noteq> [] then stringPtr (Getenv env ''CRYPTO_KEY'') else s_CryptoKey jc)"
    and "flags' = flags\<lparr>flag_key := (if Getenv env ''KEY'' \<noteq> [] then Getenv env ''KEY'' else flag_key flags)\<rparr>"
proof -
  note e = assms [unfolded applyServerEnvironmentVariables_def Let_def prod.inject, THEN conjunct1, symmetric]
    and f = assms [unfolded applyServerEnvironmentVariables_def Let_def prod.inject, THEN conjunct2, symmetric]
  show "s_Address jc' = (if Getenv env ''ADDRESS'' \<noteq> [] then stringPtr (Getenv env ''ADDRESS'') else s_Address jc)"
    and "s_StoreInterval jc' = (if Getenv env ''STORE_INTERVAL'' \<noteq> [] then interval_text (Getenv env ''STORE_INTERVAL'') else s_StoreInterval jc)"
    and "s_StoreFile jc' = (if Getenv env ''FILE_STORAGE_PATH'' \<noteq> [] then stringPtr (Getenv env ''FILE_STORAGE_PATH'') else s_StoreFile jc)"
    and "s_Restore jc' = (if Getenv env ''RESTORE'' \<noteq> [] then env_bool (Getenv env ''RESTORE'') (s_Restore jc) else s_Restore jc)"
    and "s_DatabaseDSN jc' = (if Getenv env ''DATABASE_DSN'' \<noteq> [] then stringPtr (Getenv env ''DATABASE_DSN'') else s_DatabaseDSN jc)"
    and "s_CryptoKey jc' = (if Getenv env ''CRYPTO_KEY'' \<noteq> [] then stringPtr (Getenv env ''CRYPTO_KEY'') else s_CryptoKey jc)"
    unfolding e by (simp_all add: set_if_server)
  show "flags' = flags\<lparr>flag_key := (if Getenv env ''KEY'' \<noteq> [] then Getenv env ''KEY'' else flag_key flags)\<rparr>"
    unfolding f by (simp add: set_if_def)
qed

lemma server_sources:
  assumes "applyServerEnvironmentVariables env jc flags = (jc', flags')"
  defines "fc \<equiv> ApplyToServerConfig jc' (applyServerFlags env flags')"
  shows "(case s_Address fc of Some a \<Rightarrow> a | None \<Rightarrow> ''localhost:8080'')
      = resolve (runAddr flags) ''localhost:8080'' (Getenv env ''ADDRESS'') (s_Address jc)"
    and "(case s_StoreFile fc of Some f \<Rightarrow> f | None \<Rightarrow> ''/tmp/metrics-db.json'')
      = resolve (fileStoragePath flags) ''/tmp/metrics-db.json'' (Getenv env ''FILE_STORAGE_PATH'') (s_StoreFile jc)"
    and "(case s_DatabaseDSN fc of Some d \<Rightarrow> d | None \<Rightarrow> [])
      = resolve (databaseDSN flags) [] (Getenv env ''DATABASE_DSN'') (s_DatabaseDSN jc)"
    and "(case s_CryptoKey fc of Some c \<Rightarrow> c | None \<Rightarrow> [])
      = resolve (cryptoKey flags) [] (Getenv env ''CRYPTO_KEY'') (s_CryptoKey jc)"
    and "(case s_Restore fc of Some r \<Rightarrow> r | None \<Rightarrow> True)
      = (case env_bool (Getenv env ''RESTORE'') (s_Restore jc) of Some r \<Rightarrow> r | None \<Rightarrow> True)"
    and "flag_key flags' = (if Getenv env ''KEY'' \<noteq> [] then Getenv env ''KEY'' else flag_key flags)"
proof -
  note env = applyServerEnv_fields [OF assms(1)]
  note [simp] = fc_def ApplyToServerConfig_def applyServerFlags_fields env unless_set_case resolve_def stringPtr_def
  show "(case s_Address fc of Some a \<Rightarrow> a | None \<Rightarrow> ''localhost:8080'')
      = resolve (runAddr flags) ''localhost:8080'' (Getenv env ''ADDRESS'') (s_Address jc)" by simp
  show "(case s_StoreFile fc of Some f \<Rightarrow> f | None \<Rightarrow> ''/tmp/metrics-db.json'')
      = resolve (fileStoragePath flags) ''/tmp/metrics-db.json'' (Getenv env ''FILE_STORAGE_PATH'') (s_StoreFile jc)" by simp
  show "(case s_DatabaseDSN fc of Some d \<Rightarrow> d | None \<Rightarrow> [])
      = resolve (databaseDSN flags) [] (Getenv env ''DATABASE_DSN'') (s_DatabaseDSN jc)" by simp
  show "(case s_CryptoKey fc of Some c \<Rightarrow> c | None \<Rightarrow> [])
      = resolve (cryptoKey flags) [] (Getenv env ''CRYPTO_KEY'') (s_CryptoKey jc)" by simp
  show "(case s_Restore fc of Some r \<Rightarrow> r | None \<Rightarrow> True)
      = (case env_bool (Getenv env ''RESTORE'') (s_Restore jc) of Some r \<Rightarrow> r | None \<Rightarrow> True)"
    by (simp add: env_bool_def boolPtr_def)
  show "flag_key flags' = (if Getenv env ''KEY'' \<noteq> [] then Getenv env ''KEY'' else flag_key flags)" by simp
qed

lemma Load_cases:
  assumes "Load unmarshal env = Inr cfg"
  obtains flags jc jc' flags' where "parseServerFlags env = Inr flags"
    and "loadServerJSONConfig unmarshal env (configFile flags) = Inr jc"
    and "applyServerEnvironmentVariables env jc flags = (jc', flags')"
    and "buildServerConfig (ApplyToServerConfig jc' (applyServerFlags env flags')) flags' = Inr cfg"
  using assms by (auto simp: Load_def Let_def split: sum.splits prod.splits option.splits)

lemma buildServerConfig_fields:
  assumes "buildServerConfig fc flags = Inr cfg"
  shows "RunAddr cfg = (case s_Address fc of Some a \<Rightarrow> a | None \<Rightarrow> ''localhost:8080'')"
    and "FileStoragePath cfg = (case s_StoreFile fc of Some f \<Rightarrow> f | None \<Rightarrow> ''/tmp/metrics-db.json'')"
    and "DatabaseDSN cfg = (case s_DatabaseDSN fc of Some d \<Rightarrow> d | None \<Rightarrow> [])"
    and "CryptoKey cfg = (case s_CryptoKey fc of Some c \<Rightarrow> c | None \<Rightarrow> [])"
    and "Restore cfg = (case s_Restore fc of Some r \<Rightarrow> r | None \<Rightarrow> True)"
    and "Key cfg = flag_key flags"
    and "0 < StoreInterval cfg" and "StoreInterval cfg \<le> 9223372036"
proof -
  define base where "base = \<lparr>RunAddr = (case s_Address fc of Some a \<Rightarrow> a | None \<Rightarrow> ''localhost:8080''), StoreInterval = 300,
     FileStoragePath = (case s_StoreFile fc of Some f \<Rightarrow> f | None \<Rightarrow> ''/tmp/metrics-db.json''),
     Restore = (case s_Restore fc of Some r \<Rightarrow> r | None \<Rightarrow> True),
     DatabaseDSN = (case s_DatabaseDSN fc of Some d \<Rightarrow> d | None \<Rightarrow> []), Key = flag_key flags,
     CryptoKey = (case s_CryptoKey fc of Some c \<Rightarrow> c | None \<Rightarrow> [])\<rparr>"
  have "\<exists>n > 0. n \<le> 9223372036 \<and> cfg = base\<lparr>StoreInterval := n\<rparr>"
  proof (cases "s_StoreInterval fc")
    case None
    then have "cfg = base\<lparr>StoreInterval := 300\<rparr>"
      using assms unfolding buildServerConfig_def base_def by auto
    then show ?thesis by (intro exI [of _ 300]) simp
  next
    case (Some iv)
    with assms obtain n where "ParseDurationToSeconds iv = Inr n" and "cfg = base\<lparr>StoreInterval := n\<rparr>"
      unfolding buildServerConfig_def base_def by (cases "ParseDurationToSeconds iv") auto
    then show ?thesis using ParseDurationToSeconds_positive ParseDurationToSeconds_bound by blast
  qed
  then show "RunAddr cfg = (case s_Address fc of Some a \<Rightarrow> a | None \<Rightarrow> ''localhost:8080'')"
    and "FileStoragePath cfg = (case s_StoreFile fc of Some f \<Rightarrow> f | None \<Rightarrow> ''/tmp/metrics-db.json'')"
    and "DatabaseDSN cfg = (case s_DatabaseDSN fc of Some d \<Rightarrow> d | None \<Rightarrow> [])"
    and "CryptoKey cfg = (case s_CryptoKey fc of Some c \<Rightarrow> c | None \<Rightarrow> [])"
    and "Restore cfg = (case s_Restore fc of Some r \<Rightarrow> r | None \<Rightarrow> True)"
    and "Key cfg = flag_key flags"
    and "0 < StoreInterval cfg" and "StoreInterval cfg \<le> 9223372036"
    by (auto simp: base_def)
qed

section \<open>The restore flag has no effect\<close>

lemma restore_ignored:
  "applyServerFlags env (flags\<lparr>restore := b\<rparr>) = applyServerFlags env flags"
  "buildServerConfig fc (flags\<lparr>restore := b\<rparr>) = buildServerConfig fc flags"
  "applyServerEnvironmentVariables env jc (flags\<lparr>restore := b\<rparr>)
    = (let (jc', flags') = applyServerEnvironmentVariables env jc flags in (jc', flags'\<lparr>restore := b\<rparr>))"
  by (simp_all add: applyServerFlags_def buildServerConfig_def applyServerEnvironmentVariables_def Let_def set_if_def)

definition load_with :: "(bytes \<Rightarrow> ServerJSONConfig option) \<Rightarrow> osenv \<Rightarrow> serverFlagValues \<Rightarrow> config_error + Config" where
  "load_with unmarshal env flags =
     (case loadServerJSONConfig unmarshal env (configFile flags) of
        Inl e \<Rightarrow> Inl e
      | Inr jc \<Rightarrow>
         (case applyServerEnvironmentVariables env jc flags of (jc, flags) \<Rightarrow>
            (case buildServerConfig (ApplyToServerConfig jc (applyServerFlags env flags)) flags of
               Inl e \<Rightarrow> Inl e
             | Inr result \<Rightarrow>
                (case validateServerConfig result of Some e \<Rightarrow> Inl e | None \<Rightarrow> Inr result))))"

lemma Load_with: "Load unmarshal env = (case parseServerFlags env of Inl e \<Rightarrow> Inl e | Inr flags \<Rightarrow> load_with unmarshal env flags)"
  by (simp add: Load_def load_with_def Let_def split: sum.splits)

lemma load_with_restore: "load_with unmarshal env (flags\<lparr>restore := b\<rparr>) = load_with unmarshal env flags"
  by (simp add: load_with_def restore_ignored Let_def split: sum.splits prod.splits)

lemma load_with_args: "load_with unmarshal (env\<lparr>Args := a\<rparr>) flags = load_with unmarshal env flags"
  by (simp add: load_with_def loadServerJSONConfig_def LoadJSONFile_def applyServerEnvironmentVariables_def
      applyServerFlags_def Let_def cong: if_cong sum.case_cong)

section \<open>Properties\<close>

definition sample_env :: "string list \<Rightarrow> (string \<times> string) list \<Rightarrow> osenv" where
  "sample_env args vars = \<lparr>Args = args, Getenv = (\<lambda>k. case map_of vars k of None \<Rightarrow> [] | Some v \<Rightarrow> v),
     ReadFile = (\<lambda>f. Inl (TextErr ''no such file''))\<rparr>"



text \<open>
  Load never returns a store interval that is zero or negative: the value 0, which
  validateServerConfig would let pass, is an error of the parser already, and without any
  setting the interval is 300 seconds. Nor is it too long for a duration in nanoseconds.
\<close>

theorem load_store_interval_positive:
  assumes "Load unmarshal env = Inr cfg"
  shows "0 < StoreInterval cfg \<and> StoreInterval cfg \<le> 9223372036"
proof -
  obtain flags jc jc' flags' where
    "buildServerConfig (ApplyToServerConfig jc' (applyServerFlags env flags')) flags' = Inr cfg"
    using assms by (rule Load_cases)
  then show ?thesis using buildServerConfig_fields(7,8) by blast
qed

theorem load_store_interval_positive_witness:
  "\<exists>cfg. Load (\<lambda>b. None) (sample_env [''server''] []) = Inr cfg \<and> 0 < StoreInterval cfg"
proof -
  obtain cfg where cfg: "Load (\<lambda>b. None) (sample_env [''server''] []) = Inr cfg"
    by (simp add: Load_def parseServerFlags_def loadServerJSONConfig_def sample_env_def default_server_flags_def
        default_addr_def default_file_def applyServerEnvironmentVariables_def applyServerFlags_def
        ApplyToServerConfig_def buildServerConfig_def validateServerConfig_def set_if_def empty_server_json_def)
  with load_store_interval_positive [OF cfg] show ?thesis by blast
qed

text \<open>
  An interval given as an integer flag survives the way through its text: \<open>i\<close> is printed
  with the unit s, parsed as a duration and divided into seconds, and \<open>i\<close> comes out, for
  every positive \<open>i\<close> whose nanoseconds fit in 64 bits; every other integer is an error.
\<close>

theorem interval_flag_roundtrip:
  "ParseDurationToSeconds (fmt_d i @ ''s'') = Inr n \<longleftrightarrow> n = sint i \<and> 0 < sint i \<and> sint i \<le> 9223372036"
  unfolding interval_roundtrip by auto

text \<open>
  The -r flag is ignored: the program started with -r=false loads what it loads without
  any flag, whatever the environment and the files.
\<close>

theorem restore_flag_ignored:
  assumes "\<not> is_test_binary [p]"
  shows "Load unmarshal (env\<lparr>Args := [p, ''-r=false'']\<rparr>) = Load unmarshal (env\<lparr>Args := [p]\<rparr>)"
proof -
  have "is_test_binary [p, q] = is_test_binary [p]" for q by (simp add: is_test_binary_def)
  then have "parseServerFlags (env\<lparr>Args := [p, ''-r=false'']\<rparr>) = Inr (default_server_flags\<lparr>restore := False\<rparr>)"
    using assms by (simp add: parseServerFlags_def split_flag_def server_flag_kinds_def flag_set_def
        set_server_flag_def ParseBool_def)
  moreover have "parseServerFlags (env\<lparr>Args := [p]\<rparr>) = Inr default_server_flags"
    by (simp add: parseServerFlags_def)
  ultimately show ?thesis by (simp add: Load_with load_with_args load_with_restore)
qed

theorem restore_flag_ignored_witness:
  "Load (\<lambda>b. None) ((sample_env [] [])\<lparr>Args := [''server'', ''-r=false'']\<rparr>)
    = Load (\<lambda>b. None) ((sample_env [] [])\<lparr>Args := [''server'']\<rparr>)"
  by (rule restore_flag_ignored) (simp add: is_test_binary_def)

end
