(* ===== verification/AgentConfig.thy ===== *)
theory AgentConfig
  imports Config
begin

text \<open>
  \<^verbatim>\<open>internal/app/agent_config.go\<close>: the agent's configuration, built in the same steps as the
  server's. The rate limit and the key have no JSON field; the intervals pass through their
  text.
\<close>

section \<open>Flags\<close>

record AgentConfig =
  Address :: string
  ReportInterval :: int
  PollInterval :: int
  AgentKey :: string
  RateLimit :: int
  AgentCryptoKey :: string

record flagValues =
  f_address :: string
  f_reportInterval :: int64
  f_pollInterval :: int64
  f_key :: string
  f_rateLimit :: int64
  f_cryptoKey :: string
  f_configFile :: string

definition default_agent_flags :: flagValues where
  "default_agent_flags = \<lparr>f_address = ''localhost:8080'', f_reportInterval = 10, f_pollInterval = 2,
     f_key = [], f_rateLimit = 1, f_cryptoKey = [], f_configFile = []\<rparr>"

definition agent_flag_kinds :: "string \<rightharpoonup> flag_kind" where
  "agent_flag_kinds = map_of [(''a'', StringFlag), (''r'', IntFlag), (''p'', IntFlag), (''k'', StringFlag),
     (''l'', IntFlag), (''crypto-key'', StringFlag), (''c'', StringFlag), (''config'', StringFlag)]"

definition set_agent_flag :: "string \<times> flag_value \<Rightarrow> flagValues \<Rightarrow> flagValues" where
  "set_agent_flag a flags = (case a of
     (n, StringV v) \<Rightarrow>
       (if n = ''a'' then flags\<lparr>f_address := v\<rparr>
        else if n = ''k'' then flags\<lparr>f_key := v\<rparr>
        else if n = ''crypto-key'' then flags\<lparr>f_cryptoKey := v\<rparr>
        else flags\<lparr>f_configFile := v\<rparr>)
   | (n, IntV v) \<Rightarrow>
       (if n = ''r'' then flags\<lparr>f_reportInterval := v\<rparr>
        else if n = ''p'' then flags\<lparr>f_pollInterval := v\<rparr>
        else flags\<lparr>f_rateLimit := v\<rparr>)
   | (n, BoolV v) \<Rightarrow> flags)"

definition parseFlags :: "osenv \<Rightarrow> config_error + flagValues" where
  "parseFlags env =
     (if \<not> is_test_binary (Args env) \<and> 1 < length (Args env)
      then (case parse_args agent_flag_kinds (tl (Args env)) of
          None \<Rightarrow> Inl BadFlags
        | Some assigns \<Rightarrow> Inr (fold set_agent_flag assigns default_agent_flags))
      else Inr default_agent_flags)"

section \<open>The steps of ParseAgentConfig\<close>

definition loadJSONConfig :: "(bytes \<Rightarrow> AgentJSONConfig option) \<Rightarrow> osenv \<Rightarrow> string \<Rightarrow> config_error + AgentJSONConfig" where
  "loadJSONConfig unmarshal env file =
     (let configFile = (if file = [] then Getenv env ''CONFIG'' else file)
      in if configFile \<noteq> [] then LoadJSONFile unmarshal env configFile empty_agent_json
         else Inr empty_agent_json)"

definition applyEnvironmentVariables ::
  "osenv \<Rightarrow> AgentJSONConfig \<Rightarrow> flagValues \<Rightarrow> config_error + AgentJSONConfig \<times> flagValues" where
  "applyEnvironmentVariables env jc flags =
     (let g = Getenv env;
          jc = set_if (g ''ADDRESS'' \<noteq> []) (\<lambda>x. x\<lparr>a_Address := stringPtr (g ''ADDRESS'')\<rparr>) jc;
          jc = set_if (g ''REPORT_INTERVAL'' \<noteq> []) (\<lambda>x. x\<lparr>a_ReportInterval := interval_text (g ''REPORT_INTERVAL'')\<rparr>) jc;
          jc = set_if (g ''POLL_INTERVAL'' \<noteq> []) (\<lambda>x. x\<lparr>a_PollInterval := interval_text (g ''POLL_INTERVAL'')\<rparr>) jc;
          jc = set_if (g ''CRYPTO_KEY'' \<noteq> []) (\<lambda>x. x\<lparr>a_CryptoKey := stringPtr (g ''CRYPTO_KEY'')\<rparr>) jc;
          flags = set_if (g ''KEY'' \<noteq> []) (\<lambda>x. x\<lparr>f_key := g ''KEY''\<rparr>) flags
      in if g ''RATE_LIMIT'' \<noteq> [] then
           (case parse_int64 (g ''RATE_LIMIT'') of
              Some v \<Rightarrow> if 0 < sint v then Inr (jc, flags\<lparr>f_rateLimit := v\<rparr>) else Inl (BadRateLimit (g ''RATE_LIMIT''))
            | None \<Rightarrow> Inl (BadRateLimit (g ''RATE_LIMIT'')))
         else Inr (jc, flags))"

definition applyFlags :: "flagValues \<Rightarrow> AgentJSONConfig" where
  "applyFlags flags =
     (let fc = empty_agent_json;
          fc = set_if (f_address flags \<noteq> ''localhost:8080'') (\<lambda>x. x\<lparr>a_Address := stringPtr (f_address flags)\<rparr>) fc;
          fc = set_if (f_reportInterval flags \<noteq> 10) (\<lambda>x. x\<lparr>a_ReportInterval := stringPtr (fmt_d (f_reportInterval flags) @ ''s'')\<rparr>) fc;
          fc = set_if (f_pollInterval flags \<noteq> 2) (\<lambda>x. x\<lparr>a_PollInterval := stringPtr (fmt_d (f_pollInterval flags) @ ''s'')\<rparr>) fc;
          fc = set_if (f_cryptoKey flags \<noteq> []) (\<lambda>x. x\<lparr>a_CryptoKey := stringPtr (f_cryptoKey flags)\<rparr>) fc
      in fc)"

definition interval_or :: "string \<Rightarrow> string option \<Rightarrow> int \<Rightarrow> config_error + int" where
  "interval_or what text dflt = (case text of
     None \<Rightarrow> Inr dflt
   | Some iv \<Rightarrow> (case ParseDurationToSeconds iv of Inl e \<Rightarrow> Inl (BadInterval what e) | Inr n \<Rightarrow> Inr n))"

definition buildFinalConfig :: "AgentJSONConfig \<Rightarrow> flagValues \<Rightarrow> config_error + AgentConfig" where
  "buildFinalConfig fc flags =
     (case interval_or ''report_interval'' (a_ReportInterval fc) 10 of
        Inl e \<Rightarrow> Inl e
      | Inr report \<Rightarrow>
         (case interval_or ''poll_interval'' (a_PollInterval fc) 2 of
            Inl e \<Rightarrow> Inl e
          | Inr poll \<Rightarrow>
              Inr \<lparr>Address = (case a_Address fc of Some a \<Rightarrow> a | None \<Rightarrow> ''localhost:8080''),
                ReportInterval = report, PollInterval = poll, AgentKey = f_key flags,
                RateLimit = sint (f_rateLimit flags),
                AgentCryptoKey = (case a_CryptoKey fc of Some c \<Rightarrow> c | None \<Rightarrow> [])\<rparr>))"

definition validateConfig :: "AgentConfig \<Rightarrow> config_error option" where
  "validateConfig cfg =
     (if ReportInterval cfg \<le> 0 then Some (NotPositive ''REPORT_INTERVAL'')
      else if PollInterval cfg \<le> 0 then Some (NotPositive ''POLL_INTERVAL'')
      else if RateLimit cfg \<le> 0 then Some (NotPositive ''RATE_LIMIT'')
      else None)"

definition ParseAgentConfig :: "(bytes \<Rightarrow> AgentJSONConfig option) \<Rightarrow> osenv \<Rightarrow> config_error + AgentConfig" where
  "ParseAgentConfig unmarshal env =
     (case parseFlags env of
        Inl e \<Rightarrow> Inl e
      | Inr flags \<Rightarrow>
         (case loadJSONConfig unmarshal env (f_configFile flags) of
            Inl e \<Rightarrow> Inl e
          | Inr jsonConfig \<Rightarrow>
             (case applyEnvironmentVariables env jsonConfig flags of
                Inl e \<Rightarrow> Inl e
              | Inr (jsonConfig, flags) \<Rightarrow>
                 (let finalConfig = ApplyToAgentConfig jsonConfig (applyFlags flags) in
                  case buildFinalConfig finalConfig flags of
                    Inl e \<Rightarrow> Inl e
                  | Inr result \<Rightarrow>
                     (case validateConfig result of
                        Some e \<Rightarrow> Inl e
                      | None \<Rightarrow> Inr result)))))"

section \<open>What the steps compute\<close>

lemmas set_if_agent =
  set_if_field [of a_Address _ "\<lambda>x. x\<lparr>a_Address := v x\<rparr>" for v] set_if_other [of a_Address]
  set_if_field [of a_ReportInterval _ "\<lambda>x. x\<lparr>a_ReportInterval := v x\<rparr>" for v] set_if_other [of a_ReportInterval]
  set_if_field [of a_PollInterval _ "\<lambda>x. x\<lparr>a_PollInterval := v x\<rparr>" for v] set_if_other [of a_PollInterval]
  set_if_field [of a_CryptoKey _ "\<lambda>x. x\<lparr>a_CryptoKey := v x\<rparr>" for v] set_if_other [of a_CryptoKey]

lemma applyFlags_fields:
  "a_Address (applyFlags flags) = (if f_address flags \<noteq> ''localhost:8080'' then stringPtr (f_address flags) else None)"
  "a_ReportInterval (applyFlags flags) = (if f_reportInterval flags \<noteq> 10 then stringPtr (fmt_d (f_reportInterval flags) @ ''s'') else None)"
  "a_PollInterval (applyFlags flags) = (if f_pollInterval flags \<noteq> 2 then stringPtr (fmt_d (f_pollInterval flags) @ ''s'') else None)"
  "a_CryptoKey (applyFlags flags) = (if f_cryptoKey flags \<noteq> [] then stringPtr (f_cryptoKey flags) else None)"
  unfolding applyFlags_def Let_def
  by (simp_all add: set_if_agent empty_agent_json_def)

definition env_step :: "osenv \<Rightarrow> AgentJSONConfig \<Rightarrow> AgentJSONConfig" where
  "env_step env jc = \<lparr>
     a_Address = (if Getenv env ''ADDRESS'' \<noteq> [] then stringPtr (Getenv env ''ADDRESS'') else a_Address jc),
     a_ReportInterval = (if Getenv env ''REPORT_INTERVAL'' \<noteq> [] then interval_text (Getenv env ''REPORT_INTERVAL'') else a_ReportInterval jc),
     a_PollInterval = (if Getenv env ''POLL_INTERVAL'' \<noteq> [] then interval_text (Getenv env ''POLL_INTERVAL'') else a_PollInterval jc),
     a_CryptoKey = (if Getenv env ''CRYPTO_KEY'' \<noteq> [] then stringPtr (Getenv env ''CRYPTO_KEY'') else a_CryptoKey jc)\<rparr>"

lemma applyEnvironmentVariables_Inr:
  assumes "applyEnvironmentVariables env jc flags = Inr (jc', flags')"
  shows "jc' = env_step env jc"
    and "flags' = flags\<lparr>f_key := (if Getenv env ''KEY'' \<noteq> [] then Getenv env ''KEY'' else f_key flags), f_rateLimit := f_rateLimit flags'\<rparr>"
    and "Getenv env ''RATE_LIMIT'' = [] \<Longrightarrow> f_rateLimit flags' = f_rateLimit flags"
    and "Getenv env ''RATE_LIMIT'' \<noteq> [] \<Longrightarrow> parse_int64 (Getenv env ''RATE_LIMIT'') = Some (f_rateLimit flags') \<and> 0 < sint (f_rateLimit flags')"
proof -
  let ?jc = "set_if (Getenv env ''CRYPTO_KEY'' \<noteq> []) (\<lambda>x. x\<lparr>a_CryptoKey := stringPtr (Getenv env ''CRYPTO_KEY'')\<rparr>)
     (set_if (Getenv env ''POLL_INTERVAL'' \<noteq> []) (\<lambda>x. x\<lparr>a_PollInterval := interval_text (Getenv env ''POLL_INTERVAL'')\<rparr>)
       (set_if (Getenv env ''REPORT_INTERVAL'' \<noteq> []) (\<lambda>x. x\<lparr>a_ReportInterval := interval_text (Getenv env ''REPORT_INTERVAL'')\<rparr>)
         (set_if (Getenv env ''ADDRESS'' \<noteq> []) (\<lambda>x. x\<lparr>a_Address := stringPtr (Getenv env ''ADDRESS'')\<rparr>) jc)))"
  have jc: "?jc = env_step env jc"
    by (rule AgentJSONConfig.equality) (simp_all add: set_if_agent env_step_def)
  note eq = assms [unfolded applyEnvironmentVariables_def Let_def jc]
  show "jc' = env_step env jc"
    and "flags' = flags\<lparr>f_key := (if Getenv env ''KEY'' \<noteq> [] then Getenv env ''KEY'' else f_key flags), f_rateLimit := f_rateLimit flags'\<rparr>"
    and "Getenv env ''RATE_LIMIT'' = [] \<Longrightarrow> f_rateLimit flags' = f_rateLimit flags"
    and "Getenv env ''RATE_LIMIT'' \<noteq> [] \<Longrightarrow> parse_int64 (Getenv env ''RATE_LIMIT'') = Some (f_rateLimit flags') \<and> 0 < sint (f_rateLimit flags')"
    using eq by (auto simp: set_if_def split: if_splits option.splits)
qed

text \<open>The interval setting, from the integer flag, the environment, the JSON file or the default.\<close>

definition interval_source :: "int64 \<Rightarrow> int64 \<Rightarrow> string \<Rightarrow> string option \<Rightarrow> string option" where
  "interval_source flag dflt env_text json_text =
     (if flag \<noteq> dflt then Some (fmt_d flag @ ''s'')
      else if env_text \<noteq> [] then interval_text env_text else json_text)"

lemma agent_sources:
  assumes "applyEnvironmentVariables env jc flags = Inr (jc', flags')"
  defines "fc \<equiv> ApplyToAgentConfig jc' (applyFlags flags')"
  shows "(case a_Address fc of Some a \<Rightarrow> a | None \<Rightarrow> ''localhost:8080'')
      = resolve (f_address flags) ''localhost:8080'' (Getenv env ''ADDRESS'') (a_Address jc)"
    and "a_ReportInterval fc = interval_source (f_reportInterval flags) 10 (Getenv env ''REPORT_INTERVAL'') (a_ReportInterval jc)"
    and "a_PollInterval fc = interval_source (f_pollInterval flags) 2 (Getenv env ''POLL_INTERVAL'') (a_PollInterval jc)"
    and "(case a_CryptoKey fc of Some c \<Rightarrow> c | None \<Rightarrow> [])
      = resolve (f_cryptoKey flags) [] (Getenv env ''CRYPTO_KEY'') (a_CryptoKey jc)"
proof -
  note e = applyEnvironmentVariables_Inr [OF assms(1)]
  have flags: "f_address flags' = f_address flags" "f_reportInterval flags' = f_reportInterval flags"
    "f_pollInterval flags' = f_pollInterval flags" "f_cryptoKey flags' = f_cryptoKey flags"
    by (subst e(2); simp)+
  have ne: "stringPtr (fmt_d i @ ''s'') = Some (fmt_d i @ ''s'')" for i by (simp add: stringPtr_def)
  note [simp] = fc_def ApplyToAgentConfig_def applyFlags_fields e(1) env_step_def unless_set_case
    resolve_def stringPtr_def interval_source_def flags
  show "(case a_Address fc of Some a \<Rightarrow> a | None \<Rightarrow> ''localhost:8080'')
      = resolve (f_address flags) ''localhost:8080'' (Getenv env ''ADDRESS'') (a_Address jc)" by simp
  show "a_ReportInterval fc = interval_source (f_reportInterval flags) 10 (Getenv env ''REPORT_INTERVAL'') (a_ReportInterval jc)"
    by simp
  show "a_PollInterval fc = interval_source (f_pollInterval flags) 2 (Getenv env ''POLL_INTERVAL'') (a_PollInterval jc)"
    by simp
  show "(case a_CryptoKey fc of Some c \<Rightarrow> c | None \<Rightarrow> [])
      = resolve (f_cryptoKey flags) [] (Getenv env ''CRYPTO_KEY'') (a_CryptoKey jc)" by simp
qed

section \<open>Properties\<close>

lemma validateConfig_None:
  "validateConfig cfg = None \<longleftrightarrow> 0 < ReportInterval cfg \<and> 0 < PollInterval cfg \<and> 0 < RateLimit cfg"
  by (auto simp: validateConfig_def)

lemma buildFinalConfig_Inr:
  assumes "buildFinalConfig fc flags = Inr cfg"
  shows "interval_or ''report_interval'' (a_ReportInterval fc) 10 = Inr (ReportInterval cfg)"
    and "interval_or ''poll_interval'' (a_PollInterval fc) 2 = Inr (PollInterval cfg)"
    and "Address cfg = (case a_Address fc of Some a \<Rightarrow> a | None \<Rightarrow> ''localhost:8080'')"
    and "AgentCryptoKey cfg = (case a_CryptoKey fc of Some c \<Rightarrow> c | None \<Rightarrow> [])"
    and "AgentKey cfg = f_key flags" and "RateLimit cfg = sint (f_rateLimit flags)"
  using assms by (auto simp: buildFinalConfig_def split: sum.splits)

lemma ParseAgentConfig_cases:
  assumes "ParseAgentConfig unmarshal env = Inr cfg"
  obtains flags jc jc' flags' where "parseFlags env = Inr flags"
    and "loadJSONConfig unmarshal env (f_configFile flags) = Inr jc"
    and "applyEnvironmentVariables env jc flags = Inr (jc', flags')"
    and "buildFinalConfig (ApplyToAgentConfig jc' (applyFlags flags')) flags' = Inr cfg"
    and "validateConfig cfg = None"
  using assms by (auto simp: ParseAgentConfig_def Let_def split: sum.splits prod.splits option.splits)

text \<open>The intervals fit in a duration of 64 bits.\<close>

lemma agent_interval_bounds:
  assumes "ParseAgentConfig unmarshal env = Inr cfg"
  shows "0 < PollInterval cfg" "PollInterval cfg \<le> 9223372036" "0 < ReportInterval cfg" "ReportInterval cfg \<le> 9223372036"
proof -
  obtain fc flags where b: "buildFinalConfig fc flags = Inr cfg" and v: "validateConfig cfg = None"
    using assms by (rule ParseAgentConfig_cases)
  have bound: "n \<le> 9223372036" if "interval_or what iv k = Inr n" "k \<le> 9223372036" for what iv k n
    using that ParseDurationToSeconds_bound by (auto simp: interval_or_def split: option.splits sum.splits)
  show "PollInterval cfg \<le> 9223372036" "ReportInterval cfg \<le> 9223372036"
    using bound [OF buildFinalConfig_Inr(2) [OF b]] bound [OF buildFinalConfig_Inr(1) [OF b]] by simp_all
  show "0 < PollInterval cfg" "0 < ReportInterval cfg" using v by (simp_all add: validateConfig_None)
qed



end
