(* ===== verification/Agent.thy ===== *)
theory Agent
  imports Handlers Crypto Base64 AgentConfig
begin

text \<open>
  \<^verbatim>\<open>internal/app/agent.go\<close>, the sequential part: making and signing metrics, collecting them, and
  sending a batch (compression, encryption, the request, the retries). What the runtime and
  gopsutil report, the iteration order of a map, the URL functions and the network are
  parameters; the network is a script of what happens to the coming calls of the HTTP client.
\<close>

section \<open>Metrics of the agent\<close>

definition NewMetric :: "string \<Rightarrow> string \<Rightarrow> float64 option \<Rightarrow> int64 option \<Rightarrow> string \<Rightarrow> Metrics" where
  "NewMetric i mType v d k =
     (let metric = \<lparr>ID = i, MType = mType, Delta = d, Value = v, Hash = []\<rparr> in
      if k \<noteq> [] then
        (let data = (if mType = ''gauge'' \<and> v \<noteq> None then sprintf_f i mType (the v)
                     else if mType = ''counter'' \<and> d \<noteq> None then sprintf_d i mType (the d)
                     else [])
         in metric\<lparr>Hash := CalculateHash data k\<rparr>)
      else metric)"

text \<open>The conversion of an unsigned integer to float64, rounding to nearest, ties to even.\<close>

definition f64_of_nat :: "nat \<Rightarrow> float64" where
  "f64_of_nat n = (if n = 0 then 0 else
     (let e = bit_len (int n) - 1;
          m = (if e \<le> 52 then int n * 2 ^ (52 - e) else round_div (int n) (2 ^ (e - 52)))
      in word_of_int ((int e + 1022) * 2 ^ 52 + m)))"

text \<open>The fields of \<^verbatim>\<open>runtime.MemStats\<close> that are reported.\<close>

record MemStats =
  Alloc :: "64 word"
  BuckHashSys :: "64 word"
  Frees :: "64 word"
  GCCPUFraction :: float64
  GCSys :: "64 word"
  HeapAlloc :: "64 word"
  HeapIdle :: "64 word"
  HeapInuse :: "64 word"
  HeapObjects :: "64 word"
  HeapReleased :: "64 word"
  HeapSys :: "64 word"
  LastGC :: "64 word"
  Lookups :: "64 word"
  MCacheInuse :: "64 word"
  MCacheSys :: "64 word"
  MSpanInuse :: "64 word"
  MSpanSys :: "64 word"
  Mallocs :: "64 word"
  NextGC :: "64 word"
  NumForcedGC :: u32
  NumGC :: u32
  OtherSys :: "64 word"
  PauseTotalNs :: "64 word"
  StackInuse :: "64 word"
  StackSys :: "64 word"
  Sys :: "64 word"
  TotalAlloc :: "64 word"

definition gaugeMetrics :: "MemStats \<Rightarrow> (string \<times> float64) list" where
  "gaugeMetrics m =
     [(''Alloc'', f64_of_nat (unat (Alloc m))),
      (''BuckHashSys'', f64_of_nat (unat (BuckHashSys m))),
      (''Frees'', f64_of_nat (unat (Frees m))),
      (''GCCPUFraction'', GCCPUFraction m),
      (''GCSys'', f64_of_nat (unat (GCSys m))),
      (''HeapAlloc'', f64_of_nat (unat (HeapAlloc m))),
      (''HeapIdle'', f64_of_nat (unat (HeapIdle m))),
      (''HeapInuse'', f64_of_nat (unat (HeapInuse m))),
      (''HeapObjects'', f64_of_nat (unat (HeapObjects m))),
      (''HeapReleased'', f64_of_nat (unat (HeapReleased m))),
      (''HeapSys'', f64_of_nat (unat (HeapSys m))),
      (''LastGC'', f64_of_nat (unat (LastGC m))),
      (''Lookups'', f64_of_nat (unat (Lookups m))),
      (''MCacheInuse'', f64_of_nat (unat (MCacheInuse m))),
      (''MCacheSys'', f64_of_nat (unat (MCacheSys m))),
      (''MSpanInuse'', f64_of_nat (unat (MSpanInuse m))),
      (''MSpanSys'', f64_of_nat (unat (MSpanSys m))),
      (''Mallocs'', f64_of_nat (unat (Mallocs m))),
      (''NextGC'', f64_of_nat (unat (NextGC m))),
      (''NumForcedGC'', f64_of_nat (unat (NumForcedGC m))),
      (''NumGC'', f64_of_nat (unat (NumGC m))),
      (''OtherSys'', f64_of_nat (unat (OtherSys m))),
      (''PauseTotalNs'', f64_of_nat (unat (PauseTotalNs m))),
      (''StackInuse'', f64_of_nat (unat (StackInuse m))),
      (''StackSys'', f64_of_nat (unat (StackSys m))),
      (''Sys'', f64_of_nat (unat (Sys m))),
      (''TotalAlloc'', f64_of_nat (unat (TotalAlloc m)))]"

definition CollectRuntimeMetricsData ::
  "string \<Rightarrow> ((string \<times> float64) list \<Rightarrow> (string \<times> float64) list) \<Rightarrow> MemStats \<Rightarrow> float64 \<Rightarrow> Metrics list" where
  "CollectRuntimeMetricsData k ord m rv =
     map (\<lambda>(name, value). NewMetric name ''gauge'' (Some value) None k) (ord (gaugeMetrics m))
       @ [NewMetric ''RandomValue'' ''gauge'' (Some rv) None k]"

text \<open>One turn of \<^verbatim>\<open>collectRuntimeMetrics\<close>: the counter of polls goes up and is added.\<close>

definition runtime_batch :: "string \<Rightarrow> ((string \<times> float64) list \<Rightarrow> (string \<times> float64) list) \<Rightarrow> MemStats \<Rightarrow> float64
    \<Rightarrow> int64 \<Rightarrow> Metrics list \<times> int64" where
  "runtime_batch k ord m rv pollCount =
     (let pc = pollCount + 1
      in (CollectRuntimeMetricsData k ord m rv @ [NewMetric ''PollCount'' ''counter'' None (Some pc) k], pc))"

text \<open>Memory (total and free bytes) and the load of each CPU; None when gopsutil fails.\<close>

definition CollectSystemMetricsData :: "string \<Rightarrow> (64 word \<times> 64 word) option \<Rightarrow> float64 list option \<Rightarrow> Metrics list" where
  "CollectSystemMetricsData k vmstat cpus =
     (case vmstat of None \<Rightarrow> []
      | Some (tot, fre) \<Rightarrow>
          [NewMetric ''TotalMemory'' ''gauge'' (Some (f64_of_nat (unat tot))) None k,
           NewMetric ''FreeMemory'' ''gauge'' (Some (f64_of_nat (unat fre))) None k])
     @ (case cpus of None \<Rightarrow> []
        | Some ps \<Rightarrow> map (\<lambda>(i, p). NewMetric (''CPUutilization'' @ dec_nat (i + 1)) ''gauge'' (Some p) None k)
            (List.enumerate 0 ps))"

section \<open>The sender\<close>

record MetricsSender =
  ms_address :: string
  ms_poolSize :: int
  ms_key :: string
  ms_publicKey :: "rsa_public option"

text \<open>A key file that cannot be loaded is logged, and the sender works without encryption.\<close>

definition NewMetricsSender :: "keylib \<Rightarrow> filesystem \<Rightarrow> AgentConfig \<Rightarrow> MetricsSender" where
  "NewMetricsSender KL fs cfg =
     \<lparr>ms_address = ''http://'' @ Address cfg, ms_poolSize = RateLimit cfg, ms_key = AgentKey cfg,
      ms_publicKey = (if AgentCryptoKey cfg = [] then None
        else (case LoadPublicKey KL fs (AgentCryptoKey cfg) of Inl e \<Rightarrow> None | Inr P \<Rightarrow> Some P))\<rparr>"

record urllib =
  url_JoinPath :: "string \<Rightarrow> string \<Rightarrow> goerror + string"
  url_Path :: "string \<Rightarrow> goerror + string"     \<comment> \<open>\<^verbatim>\<open>http.NewRequest\<close>: the path of the parsed URL\<close>

text \<open>The prefix of the error of a block, in UTF-8.\<close>

definition block_error_text :: string where
  "block_error_text = map char_of ([
     0xD0, 0xBE, 0xD1, 0x88, 0xD0, 0xB8, 0xD0, 0xB1, 0xD0, 0xBA, 0xD0, 0xB0, 0x20, 0xD1, 0x88, 0xD0,
     0xB8, 0xD1, 0x84, 0xD1, 0x80, 0xD0, 0xBE, 0xD0, 0xB2, 0xD0, 0xB0, 0xD0, 0xBD, 0xD0, 0xB8, 0xD1,
     0x8F, 0x20, 0xD0, 0xB1, 0xD0, 0xBB, 0xD0, 0xBE, 0xD0, 0xBA, 0xD0, 0xB0, 0x3A, 0x20] :: nat list)"

definition crypto_goerror :: "crypto_error \<Rightarrow> goerror" where
  "crypto_goerror e = (case e of RSAError g \<Rightarrow> g | EncryptBlock g \<Rightarrow> WrapErr block_error_text g | _ \<Rightarrow> TextErr ''crypto'')"

definition new_request :: "urllib \<Rightarrow> string \<Rightarrow> bytes \<Rightarrow> string \<Rightarrow> goerror + request" where
  "new_request U url finalData contentEncoding = (case url_Path U url of
     Inl e \<Rightarrow> Inl (WrapErr ''error creating request: '' e)
   | Inr p \<Rightarrow> Inr \<lparr>Method = ''POST'', Path = p, URLParam = (\<lambda>_. []),
       ReqHeader = Header_Set Accept_Encoding ''gzip'' (Header_Set Content_Encoding contentEncoding
         (Header_Set Content_Type application_json Map.empty)),
       Body = byte_stream finalData, ContentLength = int (length finalData)\<rparr>)"

text \<open>Everything up to the request; None if encryption does not return.\<close>

definition prepare_request :: "golib \<Rightarrow> urllib \<Rightarrow> (nat \<Rightarrow> rng) \<Rightarrow> MetricsSender \<Rightarrow> Metrics list \<Rightarrow> (goerror + request) outcome option" where
  "prepare_request L U rand A ms = (case url_JoinPath U (ms_address A) ''updates/'' of
     Inl e \<Rightarrow> Some (Returned (Inl (WrapErr ''error joining URL: '' e)))
   | Inr url \<Rightarrow> (case MarshalBatch L ms of
       None \<Rightarrow> Some (Returned (Inl (WrapErr ''marshal error: '' json_unsupported)))
     | Some body \<Rightarrow>
        (let compressedData = Gzip L body in
         case ms_publicKey A of
           None \<Rightarrow> Some (Returned (new_request U url compressedData ''gzip''))
         | Some P \<Rightarrow> (case EncryptLargeData rand compressedData P of
             None \<Rightarrow> None
           | Some (Panicked m) \<Rightarrow> Some (Panicked m)
           | Some (Returned (Inl e)) \<Rightarrow> Some (Returned (Inl (WrapErr ''encryption error: '' (crypto_goerror e))))
           | Some (Returned (Inr encryptedData)) \<Rightarrow>
               Some (Returned (new_request U url (base64_encode encryptedData) ''encrypted''))))))"

section \<open>The network\<close>

text \<open>
  What happens to one call of \<^verbatim>\<open>client.Do\<close>: no connection, a connection that breaks while the body
  is sent, a request that arrives but whose answer is lost, or an answer. Errors of the client
  are \<^verbatim>\<open>url.Error\<close> values, which implement \<^verbatim>\<open>net.Error\<close>; the flag is what \<^verbatim>\<open>Timeout\<close> returns.
\<close>

datatype net_event =
    DialError bool string
  | BodyCut nat bool string
  | AnswerLost bool string
  | Answer nat

record httpworld =
  unread :: bytes                        \<comment> \<open>what is left in the reader of the request's body\<close>
  delivered :: "(request \<times> nat option) list"   \<comment> \<open>requests that arrived whole, with the status the client saw\<close>
  script :: "(nat \<times> net_event) list"     \<comment> \<open>durations and events of the coming calls\<close>

definition next_event :: "httpworld \<Rightarrow> (nat \<times> net_event) \<times> httpworld" where
  "next_event w = (case script w of [] \<Rightarrow> ((0, Answer 200), w) | x # xs \<Rightarrow> (x, w\<lparr>script := xs\<rparr>))"

text \<open>
  The transport sends the rest of the body's reader, and fails when that is not as long as the
  declared length; the reader is one object for all attempts.
\<close>

definition client_Do :: "request \<Rightarrow> httpworld run \<Rightarrow> (goerror + nat) \<times> httpworld run" where
  "client_Do r s = (case next_event (wld s) of ((d, ev), w) \<Rightarrow>
     (let done = (\<lambda>w. \<lparr>now = now s + d, wld = w\<rparr>) in
      case ev of
        DialError t x \<Rightarrow> (Inl (NetErr t x), done w)
      | _ \<Rightarrow>
        (if int (length (unread w)) \<noteq> ContentLength r
         then (Inl (NetErr False ''http: ContentLength with another Body length''), done (w\<lparr>unread := []\<rparr>))
         else (case ev of
             BodyCut n t x \<Rightarrow> (Inl (NetErr t x), done (w\<lparr>unread := drop (Suc n) (unread w)\<rparr>))
           | AnswerLost t x \<Rightarrow> (Inl (NetErr t x), done (w\<lparr>unread := [], delivered := delivered w @ [(r, None)]\<rparr>))
           | Answer c \<Rightarrow> (Inr c, done (w\<lparr>unread := [], delivered := delivered w @ [(r, Some c)]\<rparr>))
           | _ \<Rightarrow> (Inr 0, done w)))))"

definition send_attempt :: "request \<Rightarrow> httpworld action" where
  "send_attempt r s = (case client_Do r s of
     (Inl e, s1) \<Rightarrow> (Some (WrapErr ''error sending batch request: '' e), s1)
   | (Inr c, s1) \<Rightarrow> (if c \<noteq> 200 then Some (TextErr (''unexpected status code: '' @ dec_nat c)) else None, s1))"

definition SendMetricsBatch :: "golib \<Rightarrow> urllib \<Rightarrow> (nat \<Rightarrow> rng) \<Rightarrow> (string \<Rightarrow> bool) \<Rightarrow> sched \<Rightarrow> MetricsSender \<Rightarrow> Metrics list
    \<Rightarrow> httpworld run \<Rightarrow> (goerror option outcome \<times> httpworld run) option" where
  "SendMetricsBatch L U rand isc sc A ms s =
     (if length ms = 0 then Some (Returned None, s)
      else (case prepare_request L U rand A ms of
          None \<Rightarrow> None
        | Some (Panicked m) \<Rightarrow> Some (Panicked m, s)
        | Some (Returned (Inl e)) \<Rightarrow> Some (Returned (Some e), s)
        | Some (Returned (Inr r)) \<Rightarrow>
            Some (Retry isc (WithTimeout (now s) (30 * Second)) DefaultRetryConfig sc (send_attempt r)
              (s\<lparr>wld := (wld s)\<lparr>unread := content (Body r)\<rparr>\<rparr>))))"

section \<open>Facts about the conversion\<close>

text \<open>A bit pattern assembled from an exponent and a significand; the carry to the next power works out.\<close>

lemma f64_pattern:
  assumes "uint w = x * 2 ^ 52 + fr" and "0 \<le> fr" and "fr < 2 ^ 52" and "0 < x" and "x < 2047"
  shows "f64_finite w" "f64_val w = (if 1075 \<le> x then of_int ((fr + 2 ^ 52) * 2 ^ nat (x - 1075))
    else of_int (fr + 2 ^ 52) / of_int (2 ^ nat (1075 - x)))"
proof -
  have e: "f64_exp w = x" unfolding f64_exp_def assms(1) using assms(2-5) by simp
  have f: "f64_frac w = fr" unfolding f64_frac_def assms(1) using assms(2,3) by simp
  have "uint w < 2 ^ 63" unfolding assms(1) using assms(3,5) by simp
  moreover have "0 \<le> uint w" by simp
  ultimately have "\<not> bit (uint w) 63" by (simp add: bit_iff_odd div_pos_pos_trivial)
  then have neg: "\<not> f64_neg w" by (simp add: f64_neg_def bit_uint_iff)
  show "f64_finite w" using e assms(5) by (simp add: f64_finite_def)
  show "f64_val w = (if 1075 \<le> x then of_int ((fr + 2 ^ 52) * 2 ^ nat (x - 1075))
    else of_int (fr + 2 ^ 52) / of_int (2 ^ nat (1075 - x)))"
    using neg assms(4) by (simp add: f64_val_def f64_abs_def f64_mant_def f64_scale_def e f)
qed

lemma f64_assembled:
  assumes "e \<le> 1000" and "2 ^ 52 \<le> m" and "m \<le> (2 ^ 53 :: int)"
  defines "w \<equiv> word_of_int ((int e + 1022) * 2 ^ 52 + m) :: float64"
  shows "f64_finite w" "f64_val w = of_int m * 2 ^ e / 2 ^ 52"
proof -
  obtain x fr :: int where split: "(int e + 1022) * 2 ^ 52 + m = x * 2 ^ 52 + fr" and fr: "0 \<le> fr" "fr < 2 ^ 52"
    and x: "x = int e + 1023 \<and> m = fr + 2 ^ 52 \<or> x = int e + 1024 \<and> fr = 0 \<and> m = 2 ^ 53"
  proof (cases "m = 2 ^ 53")
    case True
    then show ?thesis by (intro that [of "int e + 1024" 0]) simp_all
  next
    case False
    then show ?thesis using assms(2,3) by (intro that [of "int e + 1023" "m - 2 ^ 52"]) simp_all
  qed
  have "x < 2047" "0 < x" using x assms(1) by auto
  then have "0 \<le> x * 2 ^ 52 + fr" "x * 2 ^ 52 + fr < 2 ^ 64" using fr by simp_all
  then have "uint w = x * 2 ^ 52 + fr" unfolding w_def split by (subst uint_word_of_int) (simp add: take_bit_eq_mod)
  note p = f64_pattern [OF this fr \<open>0 < x\<close> \<open>x < 2047\<close>]
  show "f64_finite w" by (rule p(1))
  have pow: "(2 :: rat) ^ e / 2 ^ 52 = (if 52 \<le> e then 2 ^ (e - 52) else 1 / 2 ^ (52 - e))"
    by (auto simp: power_diff power_add [symmetric] field_simps)
  have "f64_val w = of_int m * (2 ^ e / 2 ^ 52)"
    using x
  proof (elim disjE conjE)
    assume a: "x = int e + 1023" "m = fr + 2 ^ 52"
    have n: "nat (x - 1075) = e - 52" "nat (1075 - x) = 52 - e" "1075 \<le> x \<longleftrightarrow> 52 \<le> e" using a(1) by auto
    show ?thesis unfolding p(2) pow n a(2) by simp
  next
    assume a: "x = int e + 1024" "fr = 0" "m = 2 ^ 53"
    have n: "nat (x - 1075) = e - 51" "nat (1075 - x) = 51 - e" "1075 \<le> x \<longleftrightarrow> 51 \<le> e" using a(1) by auto
    consider "52 \<le> e" | "e = 51" | "e < 51" by linarith
    then show ?thesis
    proof cases
      case 1
      then have "e - 51 = Suc (e - 52)" by simp
      then show ?thesis unfolding p(2) pow n a(2,3) using 1 by simp
    next
      case 3
      then have "52 - e = Suc (51 - e)" by simp
      then show ?thesis unfolding p(2) pow n a(2,3) using 3 by simp
    qed (simp add: p(2) pow n a)
  qed
  then show "f64_val w = of_int m * 2 ^ e / 2 ^ 52" by simp
qed

text \<open>The significand of the conversion, scaled back, is within half a unit of the number.\<close>

lemma significand_close:
  fixes e :: nat
  assumes "2 ^ e \<le> n" and "n < 2 ^ Suc e"
  defines "m \<equiv> if e \<le> 52 then n * 2 ^ (52 - e) else round_div n (2 ^ (e - 52))"
  shows "2 ^ 52 \<le> m" "m \<le> 2 ^ 53" "\<bar>m * 2 ^ e - n * 2 ^ 52\<bar> * 2 ^ 53 \<le> n * 2 ^ 52"
    and "e \<le> 52 \<Longrightarrow> m * 2 ^ e = n * 2 ^ 52"
proof -
  have "2 ^ 52 \<le> m \<and> m \<le> 2 ^ 53 \<and> \<bar>m * 2 ^ e - n * 2 ^ 52\<bar> * 2 ^ 53 \<le> n * 2 ^ 52
    \<and> (e \<le> 52 \<longrightarrow> m * 2 ^ e = n * 2 ^ 52)"
  proof (cases "e \<le> 52")
    case True
    then have p: "(2 :: int) ^ e * 2 ^ (52 - e) = 2 ^ 52" "(2 :: int) ^ Suc e * 2 ^ (52 - e) = 2 ^ 53"
      by (simp_all add: power_add [symmetric])
    have "n * 2 ^ (52 - e) * 2 ^ e - n * 2 ^ 52 = 0" using p(1) by (simp add: mult_ac)
    moreover have "2 ^ e * 2 ^ (52 - e) \<le> n * 2 ^ (52 - e)" "n * 2 ^ (52 - e) \<le> 2 ^ Suc e * 2 ^ (52 - e)"
      using assms(1,2) by (auto intro: mult_right_mono)
    moreover have "n * 2 ^ (52 - e) * 2 ^ e = n * 2 ^ 52" using p(1) by (simp add: mult_ac)
    moreover have "0 \<le> n" using assms(1) by (smt (verit) zero_le_power)
    ultimately show ?thesis unfolding p m_def if_P [OF True] by (simp only: abs_zero) simp
  next
    case False
    define d :: int where "d = 2 ^ (e - 52)"
    have d: "0 < d" by (simp add: d_def)
    have "(2 :: int) ^ e = 2 ^ (52 + (e - 52))" using False by simp
    then have pe: "(2 :: int) ^ e = 2 ^ 52 * d" "(2 :: int) ^ Suc e = 2 ^ 53 * d"
      by (simp_all only: power_add d_def power_Suc) simp_all
    have b: "2 * n - d \<le> 2 * (m * d)" "2 * (m * d) \<le> 2 * n + d"
      using round_div_bounds [OF d, of n] False by (simp_all add: m_def d_def)
    have "(2 ^ 53 - 1) * d \<le> 2 * P \<and> 2 * P < (2 ^ 54 + 1) * d" if "P = m * d" for P
      using b assms(1,2) unfolding pe that [symmetric] by simp
    then have "(2 ^ 53 - 1) * d \<le> (2 * m) * d" "(2 * m) * d < (2 ^ 54 + 1) * d"
      unfolding mult.assoc by blast+
    then have "2 ^ 53 - 1 \<le> 2 * m" "2 * m < 2 ^ 54 + 1" using d by (simp_all only: mult_le_cancel_right_pos mult_less_cancel_right_pos)
    then have m: "2 ^ 52 \<le> m" "m \<le> 2 ^ 53" by simp_all
    have "2 * \<bar>P - n\<bar> * 2 ^ 52 \<le> n" if "P = m * d" for P
      using b assms(1) unfolding pe that [symmetric] by (cases "P \<le> n") simp_all
    then have "2 * \<bar>m * d - n\<bar> * 2 ^ 52 \<le> n" by blast
    moreover have "m * 2 ^ e - n * 2 ^ 52 = (m * d - n) * 2 ^ 52" by (simp add: pe algebra_simps)
    then have "\<bar>m * 2 ^ e - n * 2 ^ 52\<bar> = \<bar>m * d - n\<bar> * 2 ^ 52" by (simp only: abs_mult) simp
    ultimately have "\<bar>m * 2 ^ e - n * 2 ^ 52\<bar> * 2 ^ 53 \<le> n * 2 ^ 52" by simp
    then show ?thesis using m False by blast
  qed
  then show "2 ^ 52 \<le> m" "m \<le> 2 ^ 53" "\<bar>m * 2 ^ e - n * 2 ^ 52\<bar> * 2 ^ 53 \<le> n * 2 ^ 52"
    and "e \<le> 52 \<Longrightarrow> m * 2 ^ e = n * 2 ^ 52" by blast+
qed

lemma f64_of_nat_pos:
  assumes "0 < n" and "n < 2 ^ 64"
  shows "f64_finite (f64_of_nat n) \<and> \<bar>f64_val (f64_of_nat n) - of_nat n\<bar> * 2 ^ 53 \<le> of_nat n
    \<and> (n < 2 ^ 53 \<longrightarrow> f64_val (f64_of_nat n) = of_nat n)"
proof -
  define e where "e = bit_len (int n) - 1"
  define m where "m = (if e \<le> 52 then int n * 2 ^ (52 - e) else round_div (int n) (2 ^ (e - 52)))"
  have len: "2 ^ e \<le> int n" "int n < 2 ^ Suc e" using bit_len_bounds [of "int n"] assms(1) by (auto simp: e_def)
  have less: "e < k" if "n < 2 ^ k" for k
  proof -
    have "int n < 2 ^ k" using that by (metis of_nat_less_iff of_nat_numeral of_nat_power)
    then have "(2 :: int) ^ e < 2 ^ k" using len(1) by linarith
    then show ?thesis by simp
  qed
  note sig = significand_close [OF len, folded m_def]
  have w: "f64_of_nat n = word_of_int ((int e + 1022) * 2 ^ 52 + m)"
    using assms(1) by (simp add: f64_of_nat_def Let_def e_def m_def)
  have "e \<le> 1000" using less [OF assms(2)] by simp
  note v = f64_assembled [OF this sig(1,2), folded w]
  have "f64_val (f64_of_nat n) - of_nat n = of_int (m * 2 ^ e - int n * 2 ^ 52) / 2 ^ 52"
    by (simp add: v(2) field_simps)
  then have "\<bar>f64_val (f64_of_nat n) - of_nat n\<bar> = \<bar>of_int (m * 2 ^ e - int n * 2 ^ 52) / 2 ^ 52\<bar>"
    by (rule arg_cong)
  then have "\<bar>f64_val (f64_of_nat n) - of_nat n\<bar> * 2 ^ 53 = of_int (\<bar>m * 2 ^ e - int n * 2 ^ 52\<bar> * 2 ^ 53) / 2 ^ 52"
    by (simp only: abs_divide) simp
  also have "\<dots> \<le> of_int (int n * 2 ^ 52) / 2 ^ 52"
    using sig(3) by (intro divide_right_mono) (simp_all only: of_int_le_iff, simp)
  finally have "\<bar>f64_val (f64_of_nat n) - of_nat n\<bar> * 2 ^ 53 \<le> of_nat n" by simp
  moreover have "f64_val (f64_of_nat n) = of_nat n" if "n < 2 ^ 53"
  proof -
    have "m * 2 ^ e = int n * 2 ^ 52" using sig(4) less [OF that] by simp
    then have "(of_int (m * 2 ^ e) :: rat) = of_int (int n * 2 ^ 52)" by (rule arg_cong)
    then show ?thesis by (simp add: v(2))
  qed
  ultimately show ?thesis using v(1) by blast
qed

text \<open>
  Converting an unsigned 64-bit integer gives a finite number that is exact up to 2^53 and
  otherwise off by at most one part in 2^53.
\<close>

lemma f64_of_nat_close:
  assumes "n < 2 ^ 64"
  shows "f64_finite (f64_of_nat n)" "\<bar>f64_val (f64_of_nat n) - of_nat n\<bar> * 2 ^ 53 \<le> of_nat n" "n < 2 ^ 53 \<Longrightarrow> f64_val (f64_of_nat n) = of_nat n"
proof -
  consider "n = 0" | "0 < n" by linarith
  then have "f64_finite (f64_of_nat n) \<and> \<bar>f64_val (f64_of_nat n) - of_nat n\<bar> * 2 ^ 53 \<le> of_nat n
    \<and> (n < 2 ^ 53 \<longrightarrow> f64_val (f64_of_nat n) = of_nat n)"
  proof cases
    case 1
    then show ?thesis by (simp add: f64_of_nat_def f64_finite_def f64_exp_def f64_val_def f64_abs_def f64_mant_def f64_frac_def)
  next
    case 2
    then show ?thesis using assms by (rule f64_of_nat_pos)
  qed
  then show "f64_finite (f64_of_nat n)" "\<bar>f64_val (f64_of_nat n) - of_nat n\<bar> * 2 ^ 53 \<le> of_nat n"
    "n < 2 ^ 53 \<Longrightarrow> f64_val (f64_of_nat n) = of_nat n" by blast+
qed

lemma f64_of_word_finite: "f64_finite (f64_of_nat (unat (w :: 64 word)))" "f64_finite (f64_of_nat (unat (u :: u32)))"
proof -
  show "f64_finite (f64_of_nat (unat w))" using unsigned_less [of w, where ?'a = nat] by (intro f64_of_nat_close) simp
  have "unat u < 2 ^ 64" using unsigned_less [of u, where ?'a = nat] by simp
  then show "f64_finite (f64_of_nat (unat u))" by (rule f64_of_nat_close)
qed


text \<open>So every reported field of the statistics is a number that JSON can carry.\<close>

lemma gaugeMetrics_finite:
  assumes "f64_finite (GCCPUFraction st)"
  shows "\<forall>(n, v) \<in> set (gaugeMetrics st). f64_finite v"
  using assms by (simp add: gaugeMetrics_def f64_of_word_finite)

section \<open>Facts about the metrics\<close>

lemma NewMetric_signed:
  "wf_metric (NewMetric n ''gauge'' (Some v) None k)" "verifyMetricHash (NewHandlers st k) (NewMetric n ''gauge'' (Some v) None k)"
  "wf_metric (NewMetric n ''counter'' None (Some d) k)" "verifyMetricHash (NewHandlers st k) (NewMetric n ''counter'' None (Some d) k)"
  by (auto simp: NewMetric_def wf_metric_def verifyMetricHash_def NewHandlers_def Gauge_def Counter_def Let_def)

lemma system_metrics_signed:
  "m \<in> set (CollectSystemMetricsData k vm cpus) \<Longrightarrow> \<exists>n v. m = NewMetric n ''gauge'' (Some v) None k"
  by (auto simp: CollectSystemMetricsData_def split: option.splits prod.splits)

lemma runtime_metrics_signed:
  "m \<in> set (CollectRuntimeMetricsData k ord st rv) \<Longrightarrow> \<exists>n v. m = NewMetric n ''gauge'' (Some v) None k"
  by (auto simp: CollectRuntimeMetricsData_def)

section \<open>Facts about sending\<close>

lemma new_request_body:
  assumes "new_request U url b e = Inr r"
  shows "Body r = byte_stream b \<and> ContentLength r = int (length b)"
  using assms by (auto simp: new_request_def split: sum.splits)

lemma base64_encode_nonempty: "s \<noteq> [] \<Longrightarrow> base64_encode s \<noteq> []"
  by (cases s rule: base64_encode.cases) (simp_all add: Let_def)

lemma prepare_request_body:
  assumes "prepare_request L U rand A ms = Some (Returned (Inr r))" and "\<And>b. Gzip L b \<noteq> []"
  shows "ContentLength r = int (length (content (Body r))) \<and> content (Body r) \<noteq> []"
proof -
  obtain url b e where b: "new_request U url b e = Inr r" "b \<noteq> []"
    using assms base64_encode_nonempty EncryptLargeData_nonempty
    by (auto simp: prepare_request_def Let_def split: sum.splits option.splits outcome.splits)
  show ?thesis using new_request_body [OF b(1)] b(2) by simp
qed

text \<open>
  The invariant of the attempts: the reader is untouched and nothing has arrived, or the reader
  is used and no attempt can send the request any more.
\<close>

definition sending :: "request \<Rightarrow> (request \<times> nat option) list \<Rightarrow> httpworld run \<Rightarrow> bool" where
  "sending r ds s \<longleftrightarrow>
     unread (wld s) = content (Body r) \<and> delivered (wld s) = ds
   \<or> int (length (unread (wld s))) \<noteq> ContentLength r \<and> (delivered (wld s) = ds \<or> (\<exists>a. delivered (wld s) = ds @ [(r, a)]))"

lemma client_Do_sending:
  assumes "ContentLength r = int (length (content (Body r)))" and "content (Body r) \<noteq> []"
    and "sending r ds s" and "client_Do r s = (res, s')"
  shows "sending r ds s'" and "res = Inr c \<Longrightarrow> delivered (wld s') = ds @ [(r, Some c)]"
proof -
  obtain d ev w where n: "next_event (wld s) = ((d, ev), w)" by (metis surj_pair)
  then have w: "unread w = unread (wld s)" "delivered w = delivered (wld s)"
    by (auto simp: next_event_def split: list.splits)
  have len: "length (content (Body r)) - Suc n \<noteq> length (content (Body r))" for n using assms(2) by (cases "content (Body r)") auto
  show "sending r ds s'" and "res = Inr c \<Longrightarrow> delivered (wld s') = ds @ [(r, Some c)]"
    using assms(1-4) n w len by (auto simp: client_Do_def sending_def split: net_event.splits if_splits)
qed

lemma send_attempt_sending:
  assumes "ContentLength r = int (length (content (Body r)))" and "content (Body r) \<noteq> []"
    and "sending r ds s" and "send_attempt r s = (e, s')"
  shows "sending r ds s'" and "e = None \<Longrightarrow> delivered (wld s') = ds @ [(r, Some 200)]"
proof -
  obtain res s1 where c: "client_Do r s = (res, s1)" by force
  note d = client_Do_sending [OF assms(1-3) c]
  show "sending r ds s'" and "e = None \<Longrightarrow> delivered (wld s') = ds @ [(r, Some 200)]"
    using assms(4) c d by (auto simp: send_attempt_def split: sum.splits if_splits)
qed

lemma sending_now [simp]: "sending r ds (s\<lparr>now := t\<rparr>) = sending r ds s"
  by (simp add: sending_def)

lemma send_retry:
  assumes "ContentLength r = int (length (content (Body r)))" and "content (Body r) \<noteq> []"
    and "Retry isc ctx DefaultRetryConfig sc (send_attempt r) (s\<lparr>wld := (wld s)\<lparr>unread := content (Body r)\<rparr>\<rparr>) = (res, s')"
  shows "\<exists>ds. delivered (wld s') = delivered (wld s) @ ds \<and> (ds = [] \<or> (\<exists>a. ds = [(r, a)]))
    \<and> (res = Returned None \<longrightarrow> ds = [(r, Some 200)])"
proof -
  let ?s = "s\<lparr>wld := (wld s)\<lparr>unread := content (Body r)\<rparr>\<rparr>" and ?ds = "delivered (wld s)"
  have start: "sending r ?ds ?s" by (simp add: sending_def)
  note step = send_attempt_sending [OF assms(1,2)]
  have "sending r ?ds (snd (Retry isc ctx DefaultRetryConfig sc (send_attempt r) ?s))"
    using start by (rule Retry_inv) (auto intro: step(1))
  then have "sending r ?ds s'" using assms(3) by simp
  moreover have "delivered (wld s') = ?ds @ [(r, Some 200)]" if "res = Returned None"
  proof -
    have "\<exists>u. sending r ?ds u \<and> send_attempt r u = (None, s')"
      using assms(3) that start
      by (intro Retry_success [where isc = isc and ctx = ctx and cfg = DefaultRetryConfig and sc = sc and s = ?s])
        (auto simp: DefaultRetryConfig_def intro: step(1))
    then show ?thesis using step(2) by blast
  qed
  ultimately show ?thesis by (auto simp: sending_def)
qed

text \<open>Every batch that is sent is prepared first; nothing else touches the network.\<close>

lemma SendMetricsBatch_cases:
  assumes "SendMetricsBatch L U rand isc sc A ms s = Some (res, s')"
  shows "s' = s \<and> (res = Returned None \<longrightarrow> ms = [])
    \<or> (\<exists>r. prepare_request L U rand A ms = Some (Returned (Inr r))
        \<and> Retry isc (WithTimeout (now s) (30 * Second)) DefaultRetryConfig sc (send_attempt r)
            (s\<lparr>wld := (wld s)\<lparr>unread := content (Body r)\<rparr>\<rparr>) = (res, s'))"
  using assms by (auto simp: SendMetricsBatch_def split: if_splits option.splits outcome.splits sum.splits)

lemma prepare_request_returns:
  "\<exists>x. prepare_request L U rand A ms = Some x
    \<and> ((\<exists>m. x = Panicked m) \<longrightarrow> (\<exists>P. ms_publicKey A = Some P \<and> Size (pub_N P) < 11))"
proof (cases "ms_publicKey A")
  case None
  then show ?thesis by (auto simp: prepare_request_def Let_def split: sum.split option.split)
next
  case (Some P)
  obtain x where "EncryptLargeData rand (Gzip L (the (MarshalBatch L ms))) P = Some x"
    and "(\<exists>m. x = Panicked m) \<longrightarrow> Size (pub_N P) < 11"
    using encrypt_large_result by blast
  then show ?thesis using Some
    by (auto simp: prepare_request_def Let_def split: sum.split option.split outcome.split)
qed

lemma SendMetricsBatch_delivers:
  assumes "SendMetricsBatch L U rand isc sc A ms s = Some (res, s')" and "ms \<noteq> []" and "\<And>b. Gzip L b \<noteq> []"
  shows "\<exists>ds. delivered (wld s') = delivered (wld s) @ ds
    \<and> (ds = [] \<or> (\<exists>r a. ds = [(r, a)] \<and> prepare_request L U rand A ms = Some (Returned (Inr r))))
    \<and> (res = Returned None \<longrightarrow> (\<exists>r. ds = [(r, Some 200)]))"
  using SendMetricsBatch_cases [OF assms(1)]
proof (elim disjE exE conjE)
  fix r
  assume p: "prepare_request L U rand A ms = Some (Returned (Inr r))"
    and "Retry isc (WithTimeout (now s) (30 * Second)) DefaultRetryConfig sc (send_attempt r)
      (s\<lparr>wld := (wld s)\<lparr>unread := content (Body r)\<rparr>\<rparr>) = (res, s')"
  with send_retry prepare_request_body [OF p assms(3)] have "\<exists>ds. delivered (wld s') = delivered (wld s) @ ds
    \<and> (ds = [] \<or> (\<exists>a. ds = [(r, a)])) \<and> (res = Returned None \<longrightarrow> ds = [(r, Some 200)])" by blast
  with p show ?thesis by blast
qed (use assms(2) in simp)

lemma SendMetricsBatch_result:
  "\<exists>res s'. SendMetricsBatch L U rand isc sc A ms s = Some (res, s')
    \<and> ((\<exists>e. res = Returned e) \<or> (\<exists>P. ms_publicKey A = Some P \<and> Size (pub_N P) < 11))"
proof -
  obtain x where x: "prepare_request L U rand A ms = Some x"
    and pan: "(\<exists>m. x = Panicked m) \<longrightarrow> (\<exists>P. ms_publicKey A = Some P \<and> Size (pub_N P) < 11)"
    using prepare_request_returns by blast
  have retry: "\<exists>e u. Retry isc ctx DefaultRetryConfig sc f t = (Returned e, u)" for ctx t and f :: "httpworld action"
  proof -
    have "fst (Retry isc ctx DefaultRetryConfig sc f t) \<noteq> Panicked m" for m
      by (rule Retry_no_panic) (simp add: DefaultRetryConfig_def)
    then show ?thesis by (metis fst_conv outcome.exhaust surj_pair)
  qed
  show ?thesis
  proof (cases "ms = []")
    case True
    then show ?thesis by (simp add: SendMetricsBatch_def)
  next
    case False
    show ?thesis
    proof (cases x)
      case (Panicked m)
      then show ?thesis using False x pan by (simp add: SendMetricsBatch_def)
    next
      case (Returned y)
      show ?thesis
      proof (cases y)
        case (Inr r)
        obtain e u where "Retry isc (WithTimeout (now s) (30 * Second)) DefaultRetryConfig sc (send_attempt r)
          (s\<lparr>wld := (wld s)\<lparr>unread := content (Body r)\<rparr>\<rparr>) = (Returned e, u)" using retry by blast
        then show ?thesis using False x Returned Inr by (simp add: SendMetricsBatch_def)
      qed (use False x Returned in \<open>simp add: SendMetricsBatch_def\<close>)
    qed
  qed
qed

text \<open>A refused connection is an error of the network without a timeout, which is not repeated.\<close>

lemma refused_connection_is_final:
  assumes "script (wld s) = (d, DialError False x) # rest" and "ctx_Err ctx (now s) = None"
  shows "Retry isc ctx DefaultRetryConfig sc (send_attempt r) s
    = (Returned (Some (WrapErr ''non-retriable error: '' (WrapErr ''error sending batch request: '' (NetErr False x)))),
       \<lparr>now = now s + d, wld = (wld s)\<lparr>script := rest\<rparr>\<rparr>)"
  using assms by (intro Retry_final_error)
    (simp_all add: DefaultRetryConfig_def send_attempt_def client_Do_def next_event_def retriable_net_error [where t = False])

section \<open>A sender to exercise the theorems on\<close>

definition sample_urllib :: urllib where
  "sample_urllib = \<lparr>url_JoinPath = (\<lambda>b e. Inr (b @ ''/'' @ e)), url_Path = (\<lambda>u. Inr ''/updates/'')\<rparr>"

definition sample_sender :: MetricsSender where
  "sample_sender = \<lparr>ms_address = ''http://localhost:8080'', ms_poolSize = 1, ms_key = [], ms_publicKey = None\<rparr>"

text \<open>The first attempt times out before the connection is made, the second one is answered.\<close>

definition sample_network :: "httpworld run" where
  "sample_network = \<lparr>now = 0, wld = \<lparr>unread = [], delivered = [], script = [(7, DialError True ''i/o timeout''), (5, Answer 200)]\<rparr>\<rparr>"

definition sample_agent_request :: request where
  "sample_agent_request = projr (new_request sample_urllib ''http://localhost:8080/updates/'' (Gzip sample_lib sample_batch_text) ''gzip'')"

definition sample_sent :: "httpworld run" where
  "sample_sent = \<lparr>now = 12 + nat (sint Second),
     wld = \<lparr>unread = [], delivered = [(sample_agent_request, Some 200)], script = []\<rparr>\<rparr>"

definition sample_rand :: "nat \<Rightarrow> rng" where "sample_rand i j = CHR 0x01"

lemma sample_prepared: "prepare_request sample_lib sample_urllib sample_rand sample_sender [sample_counter, sample_gauge]
    = Some (Returned (Inr sample_agent_request))"
  by (simp add: prepare_request_def sample_agent_request_def new_request_def sample_urllib_def sample_sender_def sample_lib_def)

lemma sample_attempts:
  "send_attempt sample_agent_request (sample_network\<lparr>wld := (wld sample_network)\<lparr>unread := content (Body sample_agent_request)\<rparr>\<rparr>)
     = (Some (WrapErr ''error sending batch request: '' (NetErr True ''i/o timeout'')),
        \<lparr>now = 7, wld = \<lparr>unread = content (Body sample_agent_request), delivered = [], script = [(5, Answer 200)]\<rparr>\<rparr>)"
  "send_attempt sample_agent_request
     \<lparr>now = 7 + nat (sint Second), wld = \<lparr>unread = content (Body sample_agent_request), delivered = [], script = [(5, Answer 200)]\<rparr>\<rparr>
     = (None, sample_sent)"
  by (simp_all add: send_attempt_def client_Do_def next_event_def sample_network_def sample_sent_def sample_agent_request_def
      new_request_def sample_urllib_def)

lemma sample_send:
  "SendMetricsBatch sample_lib sample_urllib sample_rand (\<lambda>c. False) \<lparr>tie = (\<lambda>_. False), lag = (\<lambda>_. 0)\<rparr> sample_sender
     [sample_counter, sample_gauge] sample_network = Some (Returned None, sample_sent)"
proof -
  have start: "now sample_network = 0" by (simp add: sample_network_def)
  show ?thesis
    by (simp add: SendMetricsBatch_def sample_prepared Retry_def retry_loop.simps sample_attempts retriable_net_error
        DefaultRetryConfig_def start WithTimeout_def ctx_Err_def select_after_def Second_def)
      (use sample_attempts(2) in \<open>simp add: Second_def\<close>)
qed

section \<open>Properties\<close>

text \<open>
  C26: whatever the collectors report, each metric they make is well formed, with its value
  under the right field, and carries a hash that a server with the same key accepts (with an
  empty key, no hash is asked for); the counter of polls has gone up by one in 64-bit arithmetic.
\<close>

theorem collected_metrics_accepted:
  "list_all (\<lambda>m. wf_metric m \<and> verifyMetricHash (NewHandlers st k) m)
     (fst (runtime_batch k ord m rv pc) @ CollectSystemMetricsData k vm cpus)
   \<and> snd (runtime_batch k ord m rv pc) = pc + 1"
  using NewMetric_signed
  by (auto simp: list_all_iff runtime_batch_def Let_def dest!: system_metrics_signed runtime_metrics_signed)

text \<open>
  C18: a batch reaches the server at most once. However the network behaves and however often
  the sender retries, at most one request arrives whole, the prepared one; and the sender
  reports success only when it arrived and was answered with status 200. (The reader of the
  body is shared by the attempts: once it is used, a retry cannot send the body again.)
\<close>

theorem batch_sent_at_most_once:
  assumes "SendMetricsBatch L U rand isc sc A ms s = Some (res, s')" and "ms \<noteq> []" and "\<And>b. Gzip L b \<noteq> []"
  shows "\<exists>ds. delivered (wld s') = delivered (wld s) @ ds
    \<and> (ds = [] \<or> (\<exists>r a. ds = [(r, a)] \<and> prepare_request L U rand A ms = Some (Returned (Inr r))))
    \<and> (res = Returned None \<longrightarrow> (\<exists>r. ds = [(r, Some 200)]))"
  using assms by (rule SendMetricsBatch_delivers)

theorem batch_sent_at_most_once_witness:
  "\<exists>ds. delivered (wld sample_sent) = [] @ ds
    \<and> (ds = [] \<or> (\<exists>r a. ds = [(r, a)]
         \<and> prepare_request sample_lib sample_urllib sample_rand sample_sender [sample_counter, sample_gauge] = Some (Returned (Inr r))))
    \<and> (Returned None = (Returned None :: goerror option outcome) \<longrightarrow> (\<exists>r. ds = [(r, Some 200)]))"
  using batch_sent_at_most_once [OF sample_send] by (simp add: sample_lib_def sample_network_def)

text \<open>
  C25: sending always returns. For every batch, key, network and scheduling SendMetricsBatch
  gives a result, an error value or nil; it panics only if the public key has fewer than 11
  bytes.
\<close>

theorem send_returns:
  "\<exists>res s'. SendMetricsBatch L U rand isc sc A ms s = Some (res, s')
    \<and> ((\<exists>e. res = Returned e) \<or> (\<exists>P. ms_publicKey A = Some P \<and> Size (pub_N P) < 11))"
  by (rule SendMetricsBatch_result)

end
