(* ===== verification/Steps.thy ===== *)
theory Steps
  imports Main
begin

text \<open>
  Step relations: finite runs of labelled steps, the rule that a property kept by every step
  holds along every run, steps that use up a measure, systems that behave as one queue, and
  systems that remember what was observed. The theories with concurrent parts (server,
  server process, agent) interpret the locales on their own step relations.
\<close>

section \<open>Runs\<close>

inductive run :: "('s \<Rightarrow> 'e \<Rightarrow> 's \<Rightarrow> bool) \<Rightarrow> 's \<Rightarrow> 'e list \<Rightarrow> 's \<Rightarrow> bool" for step where
  run_nil: "run step s [] s"
| run_cons: "step s e t \<Longrightarrow> run step t es u \<Longrightarrow> run step s (e # es) u"

inductive_cases run_nilE: "run step s [] t"
inductive_cases run_consE: "run step s (e # es) t"

inductive_simps run_nil_iff [simp]: "run step s [] t"
inductive_simps run_cons_iff: "run step s (e # es) t"

lemma run_append: "run step s es t \<Longrightarrow> run step t fs u \<Longrightarrow> run step s (es @ fs) u"
  by (induction rule: run.induct) (auto intro: run_cons)

lemma run_one: "step s e t \<Longrightarrow> run step s [e] t"
  by (auto intro: run.intros)

section \<open>Invariants\<close>

locale step_invariant =
  fixes step :: "'s \<Rightarrow> 'e \<Rightarrow> 's \<Rightarrow> bool"
    and inv :: "'s \<Rightarrow> bool"
  assumes step_keeps: "inv s \<Longrightarrow> step s e t \<Longrightarrow> inv t"
begin

lemma run_keeps: "run step s es t \<Longrightarrow> inv s \<Longrightarrow> inv t"
  by (induction rule: run.induct) (auto dest: step_keeps)

text \<open>A quantity that no step changes, as long as the invariant holds.\<close>

lemma run_constant:
  assumes "run step s es t" and "inv s" and "\<And>s e t. inv s \<Longrightarrow> step s e t \<Longrightarrow> f t = f s"
  shows "f t = f s"
  using assms(1,2)
proof (induction rule: run.induct)
  case (run_cons s e t es u)
  then have "inv t" by (blast intro: step_keeps)
  with run_cons assms(3) show ?case by metis
qed simp

end

section \<open>Draining\<close>

text \<open>
  A system that has work left can always make a step of a chosen kind that leaves less of it;
  then it can finish, in at most as many steps as the measure says.
\<close>

locale draining = step_invariant step inv
  for step :: "'s \<Rightarrow> 'e \<Rightarrow> 's \<Rightarrow> bool" and inv :: "'s \<Rightarrow> bool" +
  fixes finished :: "'s \<Rightarrow> bool"
    and work :: "'s \<Rightarrow> nat"
    and chosen :: "'e \<Rightarrow> bool"
  assumes progress: "inv s \<Longrightarrow> \<not> finished s \<Longrightarrow> \<exists>e t. chosen e \<and> step s e t \<and> work t < work s"
begin

lemma can_finish:
  assumes "inv s"
  shows "\<exists>es t. run step s es t \<and> finished t \<and> list_all chosen es \<and> length es \<le> work s"
  using assms
proof (induction "work s" arbitrary: s rule: less_induct)
  case less
  show ?case
  proof (cases "finished s")
    case True
    then show ?thesis by (intro exI [of _ "[]"] exI [of _ s]) simp
  next
    case False
    from progress [OF less.prems False] obtain e t where e: "chosen e" "step s e t" "work t < work s" by blast
    from less.hyps [OF e(3) step_keeps [OF less.prems e(2)]] obtain es u
      where u: "run step t es u" "finished u" "list_all chosen es" "length es \<le> work t" by blast
    with e show ?thesis by (intro exI [of _ "e # es"] exI [of _ u]) (auto intro: run_cons)
  qed
qed

end

section \<open>Queues\<close>

text \<open>
  A system that behaves, seen from outside, as one first-in first-out queue: each step puts
  some elements in at the back and takes some out at the front of what it holds, as long as
  it has not failed.
\<close>

locale queueing =
  fixes step :: "'s \<Rightarrow> 'e \<Rightarrow> 's \<Rightarrow> bool"
    and queue :: "'s \<Rightarrow> 'b list"
    and puts takes :: "'e \<Rightarrow> 'b list"
    and failed :: "'s \<Rightarrow> bool"
  assumes step_queue: "step s e t \<Longrightarrow> \<not> failed t \<Longrightarrow> queue s @ puts e = takes e @ queue t"
    and failed_stays: "step s e t \<Longrightarrow> failed s \<Longrightarrow> failed t"
begin

lemma run_failed: "run step s es t \<Longrightarrow> failed s \<Longrightarrow> failed t"
  by (induction rule: run.induct) (auto dest: failed_stays)

lemma first_in_first_out:
  "run step s es t \<Longrightarrow> \<not> failed t \<Longrightarrow> queue s @ concat (map puts es) = concat (map takes es) @ queue t"
proof (induction rule: run.induct)
  case (run_cons s e t es u)
  have "\<not> failed t" using run_cons.hyps(2) run_cons.prems run_failed by blast
  from step_queue [OF run_cons.hyps(1) this] have "queue s @ puts e @ concat (map puts es) = takes e @ queue t @ concat (map puts es)"
    by simp
  with run_cons.IH [OF run_cons.prems] show ?case by simp
qed simp

end

section \<open>Recording\<close>

text \<open>
  What could be observed in the states that a run may pass through, and systems in which a
  property of the state refers to what has been observed so far.
\<close>

definition seen :: "('s \<Rightarrow> 'e \<Rightarrow> 's \<Rightarrow> bool) \<Rightarrow> ('s \<Rightarrow> 'm set) \<Rightarrow> 's \<Rightarrow> 'e list \<Rightarrow> 'm set" where
  "seen step obs s es = {x. \<exists>es1 es2 t. es = es1 @ es2 \<and> run step s es1 t \<and> x \<in> obs t}"

lemma seen_now: "obs s \<subseteq> seen step obs s es"
proof
  fix x assume "x \<in> obs s"
  then show "x \<in> seen step obs s es" unfolding seen_def by (auto intro: exI [of _ "[]"] exI [of _ s])
qed

lemma seen_later:
  assumes "step s e t"
  shows "seen step obs t es \<subseteq> seen step obs s (e # es)"
proof
  fix x assume "x \<in> seen step obs t es"
  then obtain es1 es2 u where "es = es1 @ es2" "run step t es1 u" "x \<in> obs u" unfolding seen_def by blast
  with assms have "e # es = (e # es1) @ es2" "run step s (e # es1) u" "x \<in> obs u" by (simp_all add: run_cons)
  then show "x \<in> seen step obs s (e # es)" unfolding seen_def by blast
qed

locale recording =
  fixes step :: "'s \<Rightarrow> 'e \<Rightarrow> 's \<Rightarrow> bool"
    and obs :: "'s \<Rightarrow> 'm set"
    and inv :: "'m set \<Rightarrow> 's \<Rightarrow> bool"
  assumes step_records: "inv S s \<Longrightarrow> step s e t \<Longrightarrow> inv (S \<union> obs t) t"
    and record_mono: "inv S s \<Longrightarrow> S \<subseteq> T \<Longrightarrow> inv T s"
begin

lemma run_records:
  "run step s es t \<Longrightarrow> inv S s \<Longrightarrow> inv (S \<union> seen step obs s es) t"
proof (induction arbitrary: S rule: run.induct)
  case (run_nil s)
  then show ?case by (rule record_mono) simp
next
  case (run_cons s e t es u)
  from run_cons.IH [OF step_records [OF run_cons.prems run_cons.hyps(1)]] show ?case
    by (rule record_mono) (use seen_now [of obs t step es] seen_later [of step s e t obs es, OF run_cons.hyps(1)] in blast)
qed

end

end
