(* ===== verification/AgentRun.thy ===== *)
theory AgentRun
  imports Agent Steps "HOL-Library.Multiset"
begin

text \<open>
  The concurrent part of \<^verbatim>\<open>internal/app/agent.go\<close> with \<^verbatim>\<open>cmd/agent/main.go\<close>: two collectors, the
  goroutine that moves batches from the collector's channel to the sender's, the one that
  submits them to the pool, the workers, and the shutdown that Run performs after a signal.
  One event is one communication, one return of a call, or one statement of the shutdown;
  \<^verbatim>\<open>agent_exec\<close> says whether it can happen and what it does.
\<close>

section \<open>Channels\<close>

record 'a chan =
  buf :: "'a list"
  chan_closed :: bool

definition make_chan :: "'a chan" where
  "make_chan = \<lparr>buf = [], chan_closed = False\<rparr>"

text \<open>All channels of the agent have room for 100 elements.\<close>

datatype 'a sending = Sent "'a chan" | SendBlocks | SendPanics

definition chan_send :: "'a \<Rightarrow> 'a chan \<Rightarrow> 'a sending" where
  "chan_send x c = (if chan_closed c then SendPanics
     else if length (buf c) < 100 then Sent (c\<lparr>buf := buf c @ [x]\<rparr>) else SendBlocks)"

datatype 'a receiving = Received 'a "'a chan" | RecvClosed | RecvBlocks

definition chan_recv :: "'a chan \<Rightarrow> 'a receiving" where
  "chan_recv c = (case buf c of x # q \<Rightarrow> Received x (c\<lparr>buf := q\<rparr>)
     | [] \<Rightarrow> if chan_closed c then RecvClosed else RecvBlocks)"

definition chan_close :: "'a chan \<Rightarrow> 'a chan" where
  "chan_close c = c\<lparr>chan_closed := True\<rparr>"

section \<open>State\<close>

type_synonym batch = "Metrics list"

text \<open>A goroutine waits for something, holds a batch, or has returned.\<close>

datatype goroutine = Idle | Holds batch | Gone

primrec held :: "goroutine \<Rightarrow> batch list" where
  "held Idle = []"
| "held (Holds b) = [b]"
| "held Gone = []"

datatype source = Runtime | System

text \<open>
  Where the shutdown is: the statements of Run after the signal, with those of the two Stops,
  in their order.
\<close>

datatype agent_pc = Running | Signalled | CollectorWait | TransferWait | StopSender | SenderWait | SenderStopped | Exited
primrec stage :: "agent_pc \<Rightarrow> nat" where
  "stage Running = 0"
| "stage Signalled = 1"
| "stage CollectorWait = 2"
| "stage TransferWait = 3"
| "stage StopSender = 4"
| "stage SenderWait = 5"
| "stage SenderStopped = 6"
| "stage Exited = 7"

instantiation agent_pc :: linorder
begin

definition less_eq_agent_pc :: "agent_pc \<Rightarrow> agent_pc \<Rightarrow> bool" where
  "less_eq_agent_pc p q \<longleftrightarrow> stage p \<le> stage q"

definition less_agent_pc :: "agent_pc \<Rightarrow> agent_pc \<Rightarrow> bool" where
  "less_agent_pc p q \<longleftrightarrow> stage p < stage q"

instance
proof
  fix p q :: agent_pc
  show "p \<le> q \<Longrightarrow> q \<le> p \<Longrightarrow> p = q" by (cases p; cases q) (simp_all add: less_eq_agent_pc_def)
qed (auto simp: less_eq_agent_pc_def less_agent_pc_def)

end

datatype pool_pc = PoolRunning | PoolWait | PoolStopped

record agent =
  collector_key :: string
  sender :: MetricsSender
  pollCount :: int64
  coll :: "source \<Rightarrow> goroutine"
  mc_cancelled :: bool
  mc_chan :: "batch chan"
  transfer :: goroutine
  run_ctx_done :: bool
  ms_cancelled :: bool
  ms_chan :: "batch chan"
  submitter :: goroutine
  tasks :: "batch chan"
  workers :: "goroutine list"
  pool :: pool_pc
  apc :: agent_pc
  panicked :: bool
  produced :: "batch list"             \<comment> \<open>history: what the collectors have made\<close>
  finished :: "batch list"             \<comment> \<open>the batches whose call of SendMetricsBatch has returned\<close>
  dropped :: "batch list"              \<comment> \<open>given up by a goroutine that saw its context done\<close>
  deliveries :: "(batch \<times> request \<times> nat option) list"  \<comment> \<open>the requests that arrived\<close>

definition NewWorkerPool :: "int \<Rightarrow> goroutine list \<times> batch chan" where
  "NewWorkerPool poolSize = (replicate (nat poolSize) Idle, make_chan)"

text \<open>
  The collector with its channel and its ticker's interval, a product of 64-bit integers. Start
  runs its two goroutines; \<^verbatim>\<open>time.NewTicker\<close> panics in them when the interval is not positive.
\<close>

record MetricsCollector =
  metricsChan :: "batch chan"
  pollInterval :: int64
  collectorKey :: string

definition NewMetricsCollector :: "AgentConfig \<Rightarrow> MetricsCollector" where
  "NewMetricsCollector cfg =
     \<lparr>metricsChan = make_chan, pollInterval = word_of_int (PollInterval cfg) * Second, collectorKey = AgentKey cfg\<rparr>"

definition Collector_Start :: "MetricsCollector \<Rightarrow> (source \<Rightarrow> goroutine) outcome" where
  "Collector_Start C = (if sint (pollInterval C) \<le> 0 then Panicked ''non-positive interval for NewTicker''
     else Returned (\<lambda>w. Idle))"

text \<open>The parts put together, with the collectors and the other goroutines started and nothing done yet.\<close>

definition NewApp :: "MetricsCollector \<Rightarrow> MetricsSender \<Rightarrow> (source \<Rightarrow> goroutine) \<Rightarrow> agent" where
  "NewApp C A gs =
     (let (ws, ts) = NewWorkerPool (ms_poolSize A) in
      \<lparr>collector_key = collectorKey C, sender = A, pollCount = 0, coll = gs, mc_cancelled = False,
       mc_chan = metricsChan C, transfer = Idle, run_ctx_done = False, ms_cancelled = False, ms_chan = make_chan,
       submitter = Idle, tasks = ts, workers = ws, pool = PoolRunning, apc = Running, panicked = False,
       produced = [], finished = [], dropped = [], deliveries = []\<rparr>)"

text \<open>main up to the first statements of Run.\<close>

definition start_agent :: "keylib \<Rightarrow> filesystem \<Rightarrow> AgentConfig \<Rightarrow> agent outcome" where
  "start_agent KL fs cfg =
     (let C = NewMetricsCollector cfg; A = NewMetricsSender KL fs cfg in
      case Collector_Start C of Panicked m \<Rightarrow> Panicked m | Returned gs \<Rightarrow> Returned (NewApp C A gs))"

lemmas start_agent_defs = start_agent_def NewMetricsCollector_def Collector_Start_def NewApp_def NewWorkerPool_def Let_def

text \<open>With an accepted configuration the tickers can be made.\<close>

lemma accepted_agent_starts:
  assumes "ParseAgentConfig unmarshal env = Inr cfg"
  shows "\<exists>s. start_agent KL fs cfg = Returned s"
  using seconds_positive [OF agent_interval_bounds(1,2) [OF assms]] by (simp add: start_agent_defs)

text \<open>The report interval of the configuration plays no part: every batch is sent when it has been collected.\<close>

lemma report_interval_unused: "start_agent KL fs (cfg\<lparr>ReportInterval := n\<rparr>) = start_agent KL fs cfg"
  by (simp add: start_agent_defs NewMetricsSender_def)

section \<open>Events\<close>

datatype agent_event =
    RuntimeTick "(string \<times> float64) list \<Rightarrow> (string \<times> float64) list" MemStats float64
  | SystemTick "(64 word \<times> 64 word) option" "float64 list option"
  | CollectorPut source batch
  | CollectorExit source            \<comment> \<open>the branch of its select for a done context\<close>
  | TransferTake
  | TransferPut
  | TransferExit
  | SubmitTake
  | SubmitPut
  | WorkerTake nat batch
  | WorkerNil nat                   \<comment> \<open>receiving from the closed channel\<close>
  | WorkerExit nat
  | WorkerDone nat "nat \<Rightarrow> rng" sched "httpworld run"
  | RunContextDone
  | Signal
  | CollectorCancel
  | CollectorClose bool             \<comment> \<open>true: the wait has timed out; so below\<close>
  | TransferWaited
  | SenderCancel
  | PoolClose bool
  | SenderClose bool
  | RunReturn bool

definition panic :: "agent \<Rightarrow> agent option" where
  "panic s = Some (s\<lparr>panicked := True\<rparr>)"

text \<open>\<^verbatim>\<open>collectRuntimeMetrics\<close> and \<^verbatim>\<open>collectSystemMetrics\<close>.\<close>

definition collector_tick :: "source \<Rightarrow> batch \<Rightarrow> agent \<Rightarrow> agent option" where
  "collector_tick w b s = (if coll s w = Idle
     then Some (s\<lparr>coll := (coll s)(w := Holds b), produced := produced s @ [b]\<rparr>) else None)"

definition collector_put :: "source \<Rightarrow> batch \<Rightarrow> agent \<Rightarrow> agent option" where
  "collector_put w b s = (if coll s w = Holds b
     then (case chan_send b (mc_chan s) of
             Sent c \<Rightarrow> Some (s\<lparr>mc_chan := c, coll := (coll s)(w := Idle)\<rparr>)
           | SendBlocks \<Rightarrow> None | SendPanics \<Rightarrow> panic s)
     else None)"

definition collector_exit :: "source \<Rightarrow> agent \<Rightarrow> agent option" where
  "collector_exit w s = (if mc_cancelled s \<and> coll s w \<noteq> Gone
     then Some (s\<lparr>coll := (coll s)(w := Gone), dropped := dropped s @ held (coll s w)\<rparr>) else None)"

text \<open>The goroutine in Run: a range over the collector's channel.\<close>

definition transfer_take :: "agent \<Rightarrow> agent option" where
  "transfer_take s = (if transfer s = Idle
     then (case chan_recv (mc_chan s) of
             Received b c \<Rightarrow> Some (s\<lparr>mc_chan := c, transfer := Holds b\<rparr>)
           | RecvClosed \<Rightarrow> Some (s\<lparr>transfer := Gone\<rparr>) | RecvBlocks \<Rightarrow> None)
     else None)"

definition transfer_put :: "agent \<Rightarrow> agent option" where
  "transfer_put s = (case transfer s of
       Holds b \<Rightarrow> (case chan_send b (ms_chan s) of
             Sent c \<Rightarrow> Some (s\<lparr>ms_chan := c, transfer := Idle\<rparr>)
           | SendBlocks \<Rightarrow> None | SendPanics \<Rightarrow> panic s)
     | _ \<Rightarrow> None)"

definition transfer_exit :: "agent \<Rightarrow> agent option" where
  "transfer_exit s = (case transfer s of
       Holds b \<Rightarrow> if run_ctx_done s then Some (s\<lparr>transfer := Gone, dropped := dropped s @ [b]\<rparr>) else None
     | _ \<Rightarrow> None)"

text \<open>The goroutine of \<^verbatim>\<open>MetricsSender.Start\<close> with \<^verbatim>\<open>WorkerPool.Submit\<close>; a task is its batch.\<close>

definition submit_take :: "agent \<Rightarrow> agent option" where
  "submit_take s = (if submitter s = Idle
     then (case chan_recv (ms_chan s) of
             Received b c \<Rightarrow> Some (s\<lparr>ms_chan := c, submitter := Holds b\<rparr>)
           | RecvClosed \<Rightarrow> Some (s\<lparr>submitter := Gone\<rparr>) | RecvBlocks \<Rightarrow> None)
     else None)"

definition submit_put :: "agent \<Rightarrow> agent option" where
  "submit_put s = (case submitter s of
       Holds b \<Rightarrow> (case chan_send b (tasks s) of
             Sent c \<Rightarrow> Some (s\<lparr>tasks := c, submitter := Idle\<rparr>)
           | SendBlocks \<Rightarrow> None | SendPanics \<Rightarrow> panic s)
     | _ \<Rightarrow> None)"

text \<open>A worker of \<^verbatim>\<open>WorkerPool.Start\<close>; the task it receives from a closed channel is
  nil. Each call of SendMetricsBatch meets a network of its own, given with the event.\<close>

definition worker_is :: "agent \<Rightarrow> nat \<Rightarrow> goroutine \<Rightarrow> bool" where
  "worker_is s i g \<longleftrightarrow> i < length (workers s) \<and> workers s ! i = g"

definition worker_take :: "nat \<Rightarrow> batch \<Rightarrow> agent \<Rightarrow> agent option" where
  "worker_take i b s = (if worker_is s i Idle
     then (case chan_recv (tasks s) of
             Received b' c \<Rightarrow> if b' = b then Some (s\<lparr>tasks := c, workers := (workers s)[i := Holds b]\<rparr>) else None
           | RecvClosed \<Rightarrow> None | RecvBlocks \<Rightarrow> None)
     else None)"

definition worker_nil :: "nat \<Rightarrow> agent \<Rightarrow> agent option" where
  "worker_nil i s = (if worker_is s i Idle \<and> chan_recv (tasks s) = RecvClosed then panic s else None)"

definition worker_exit :: "nat \<Rightarrow> agent \<Rightarrow> agent option" where
  "worker_exit i s = (if worker_is s i Idle \<and> ms_cancelled s then Some (s\<lparr>workers := (workers s)[i := Gone]\<rparr>) else None)"

definition worker_done :: "golib \<Rightarrow> urllib \<Rightarrow> (string \<Rightarrow> bool) \<Rightarrow> nat \<Rightarrow> (nat \<Rightarrow> rng) \<Rightarrow> sched \<Rightarrow> httpworld run \<Rightarrow> agent \<Rightarrow> agent option" where
  "worker_done L U isc i rand sc w s = (if i < length (workers s) \<and> delivered (wld w) = []
     then (case workers s ! i of
             Holds b \<Rightarrow>
               (case SendMetricsBatch L U rand isc sc (sender s) b w of
                  None \<Rightarrow> None
                | Some (Panicked m, w') \<Rightarrow> panic s
                | Some (Returned e, w') \<Rightarrow> Some (s\<lparr>workers := (workers s)[i := Idle], finished := finished s @ [b],
                    deliveries := deliveries s @ map (Pair b) (delivered (wld w'))\<rparr>))
           | _ \<Rightarrow> None)
     else None)"

text \<open>\<^verbatim>\<open>MetricsCollector.Stop\<close>, \<^verbatim>\<open>WorkerPool.Stop\<close> and \<^verbatim>\<open>MetricsSender.Stop\<close>; the second runs beside the third.\<close>

definition collector_stop :: "agent_event \<Rightarrow> agent \<Rightarrow> agent option" where
  "collector_stop e s = (case e of
     CollectorCancel \<Rightarrow> if apc s = Signalled then Some (s\<lparr>apc := CollectorWait, mc_cancelled := True\<rparr>) else None
   | CollectorClose timeout \<Rightarrow> if apc s = CollectorWait \<and> (timeout \<or> coll s Runtime = Gone \<and> coll s System = Gone)
       then Some (s\<lparr>apc := TransferWait, mc_chan := chan_close (mc_chan s)\<rparr>) else None
   | _ \<Rightarrow> None)"

definition pool_stop :: "agent_event \<Rightarrow> agent \<Rightarrow> agent option" where
  "pool_stop e s = (case e of
     PoolClose timeout \<Rightarrow> if pool s = PoolWait \<and> (timeout \<or> list_all (\<lambda>g. g = Gone) (workers s))
       then Some (s\<lparr>pool := PoolStopped, tasks := chan_close (tasks s)\<rparr>) else None
   | _ \<Rightarrow> None)"

definition sender_stop :: "agent_event \<Rightarrow> agent \<Rightarrow> agent option" where
  "sender_stop e s = (case e of
     SenderCancel \<Rightarrow> if apc s = StopSender then Some (s\<lparr>apc := SenderWait, ms_cancelled := True, pool := PoolWait\<rparr>) else None
   | SenderClose timeout \<Rightarrow> if apc s = SenderWait \<and> (timeout \<or> pool s = PoolStopped)
       then Some (s\<lparr>apc := SenderStopped, ms_chan := chan_close (ms_chan s)\<rparr>) else None
   | _ \<Rightarrow> None)"

text \<open>The shutdown in Run; its own timeout lets it return from any place after the signal.\<close>

definition run_shutdown :: "agent_event \<Rightarrow> agent \<Rightarrow> agent option" where
  "run_shutdown e s = (case e of
     Signal \<Rightarrow> if apc s = Running then Some (s\<lparr>apc := Signalled\<rparr>) else None
   | TransferWaited \<Rightarrow> if apc s = TransferWait \<and> transfer s = Gone then Some (s\<lparr>apc := StopSender\<rparr>) else None
   | RunReturn timeout \<Rightarrow> if apc s = SenderStopped \<or> timeout \<and> apc s \<noteq> Running then Some (s\<lparr>apc := Exited\<rparr>) else None
   | _ \<Rightarrow> None)"

definition shutdown_exec :: "agent_event \<Rightarrow> agent \<Rightarrow> agent option" where
  "shutdown_exec e s = (case e of
     CollectorCancel \<Rightarrow> collector_stop e s
   | CollectorClose timeout \<Rightarrow> collector_stop e s
   | PoolClose timeout \<Rightarrow> pool_stop e s
   | SenderCancel \<Rightarrow> sender_stop e s
   | SenderClose timeout \<Rightarrow> sender_stop e s
   | _ \<Rightarrow> run_shutdown e s)"

definition agent_exec :: "golib \<Rightarrow> urllib \<Rightarrow> (string \<Rightarrow> bool) \<Rightarrow> agent_event \<Rightarrow> agent \<Rightarrow> agent option" where
  "agent_exec L U isc e s = (if panicked s \<or> apc s = Exited then None else
     (case e of
        RuntimeTick ord m rv \<Rightarrow>
          (let (b, pc) = runtime_batch (collector_key s) ord m rv (pollCount s)
           in map_option (\<lambda>t. t\<lparr>pollCount := pc\<rparr>) (collector_tick Runtime b s))
      | SystemTick vm cpus \<Rightarrow> collector_tick System (CollectSystemMetricsData (collector_key s) vm cpus) s
      | CollectorPut w b \<Rightarrow> collector_put w b s
      | CollectorExit w \<Rightarrow> collector_exit w s
      | TransferTake \<Rightarrow> transfer_take s
      | TransferPut \<Rightarrow> transfer_put s
      | TransferExit \<Rightarrow> transfer_exit s
      | SubmitTake \<Rightarrow> submit_take s
      | SubmitPut \<Rightarrow> submit_put s
      | WorkerTake i b \<Rightarrow> worker_take i b s
      | WorkerNil i \<Rightarrow> worker_nil i s
      | WorkerExit i \<Rightarrow> worker_exit i s
      | WorkerDone i rand sc w \<Rightarrow> worker_done L U isc i rand sc w s
      | RunContextDone \<Rightarrow> Some (s\<lparr>run_ctx_done := True\<rparr>)
      | _ \<Rightarrow> shutdown_exec e s))"

definition agent_step :: "golib \<Rightarrow> urllib \<Rightarrow> (string \<Rightarrow> bool) \<Rightarrow> agent \<Rightarrow> agent_event \<Rightarrow> agent \<Rightarrow> bool" where
  "agent_step L U isc s e t \<longleftrightarrow> agent_exec L U isc e s = Some t"

section \<open>Channels and steps\<close>

lemmas shutdown_defs = shutdown_exec_def collector_stop_def pool_stop_def sender_stop_def run_shutdown_def

lemma chan_send_iff:
  "chan_send x c = Sent c' \<longleftrightarrow> \<not> chan_closed c \<and> length (buf c) < 100 \<and> c' = c\<lparr>buf := buf c @ [x]\<rparr>"
  "chan_send x c = SendPanics \<longleftrightarrow> chan_closed c"
  by (auto simp: chan_send_def)

lemma chan_recv_iff:
  "chan_recv c = Received x c' \<longleftrightarrow> (\<exists>q. buf c = x # q \<and> c' = c\<lparr>buf := q\<rparr>)"
  "chan_recv c = RecvClosed \<longleftrightarrow> buf c = [] \<and> chan_closed c"
  by (auto simp: chan_recv_def split: list.splits)

text \<open>What each event needs and what it does, by the goroutine it belongs to.\<close>

lemma agent_step_runs: "agent_step L U isc s e t \<Longrightarrow> \<not> panicked s \<and> apc s \<noteq> Exited"
  by (auto simp: agent_step_def agent_exec_def split: if_splits)

lemma tick_iff: "collector_tick w b s = Some t \<longleftrightarrow> coll s w = Idle \<and> t = s\<lparr>coll := (coll s)(w := Holds b), produced := produced s @ [b]\<rparr>"
  by (auto simp: collector_tick_def)

lemma put_iff: "collector_put w b s = Some t \<longleftrightarrow> coll s w = Holds b \<and>
   (chan_closed (mc_chan s) \<and> t = s\<lparr>panicked := True\<rparr>
    \<or> \<not> chan_closed (mc_chan s) \<and> length (buf (mc_chan s)) < 100
        \<and> t = s\<lparr>mc_chan := mc_chan s\<lparr>buf := buf (mc_chan s) @ [b]\<rparr>, coll := (coll s)(w := Idle)\<rparr>)"
  by (auto simp: collector_put_def panic_def chan_send_def)

lemma collector_exit_iff: "collector_exit w s = Some t \<longleftrightarrow> mc_cancelled s \<and> coll s w \<noteq> Gone
    \<and> t = s\<lparr>coll := (coll s)(w := Gone), dropped := dropped s @ held (coll s w)\<rparr>"
  by (auto simp: collector_exit_def)

lemma transfer_take_iff: "transfer_take s = Some t \<longleftrightarrow> transfer s = Idle \<and>
   ((\<exists>b q. buf (mc_chan s) = b # q \<and> t = s\<lparr>mc_chan := mc_chan s\<lparr>buf := q\<rparr>, transfer := Holds b\<rparr>)
    \<or> buf (mc_chan s) = [] \<and> chan_closed (mc_chan s) \<and> t = s\<lparr>transfer := Gone\<rparr>)"
  by (auto simp: transfer_take_def chan_recv_def split: list.splits)

lemma transfer_put_iff: "transfer_put s = Some t \<longleftrightarrow> (\<exists>b. transfer s = Holds b \<and>
   (chan_closed (ms_chan s) \<and> t = s\<lparr>panicked := True\<rparr>
    \<or> \<not> chan_closed (ms_chan s) \<and> length (buf (ms_chan s)) < 100
        \<and> t = s\<lparr>ms_chan := ms_chan s\<lparr>buf := buf (ms_chan s) @ [b]\<rparr>, transfer := Idle\<rparr>))"
  by (auto simp: transfer_put_def panic_def chan_send_def split: goroutine.splits)

lemma transfer_exit_iff: "transfer_exit s = Some t \<longleftrightarrow> (\<exists>b. transfer s = Holds b \<and> run_ctx_done s
    \<and> t = s\<lparr>transfer := Gone, dropped := dropped s @ [b]\<rparr>)"
  by (auto simp: transfer_exit_def split: goroutine.splits)

lemma submit_take_iff: "submit_take s = Some t \<longleftrightarrow> submitter s = Idle \<and>
   ((\<exists>b q. buf (ms_chan s) = b # q \<and> t = s\<lparr>ms_chan := ms_chan s\<lparr>buf := q\<rparr>, submitter := Holds b\<rparr>)
    \<or> buf (ms_chan s) = [] \<and> chan_closed (ms_chan s) \<and> t = s\<lparr>submitter := Gone\<rparr>)"
  by (auto simp: submit_take_def chan_recv_def split: list.splits)

lemma submit_put_iff: "submit_put s = Some t \<longleftrightarrow> (\<exists>b. submitter s = Holds b \<and>
   (chan_closed (tasks s) \<and> t = s\<lparr>panicked := True\<rparr>
    \<or> \<not> chan_closed (tasks s) \<and> length (buf (tasks s)) < 100
        \<and> t = s\<lparr>tasks := tasks s\<lparr>buf := buf (tasks s) @ [b]\<rparr>, submitter := Idle\<rparr>))"
  by (auto simp: submit_put_def panic_def chan_send_def split: goroutine.splits)

lemma worker_take_iff: "worker_take i b s = Some t \<longleftrightarrow> worker_is s i Idle \<and> (\<exists>q. buf (tasks s) = b # q
    \<and> t = s\<lparr>tasks := tasks s\<lparr>buf := q\<rparr>, workers := (workers s)[i := Holds b]\<rparr>)"
  by (auto simp: worker_take_def chan_recv_def split: list.splits)

lemma worker_nil_iff: "worker_nil i s = Some t \<longleftrightarrow> worker_is s i Idle \<and> buf (tasks s) = [] \<and> chan_closed (tasks s)
    \<and> t = s\<lparr>panicked := True\<rparr>"
  by (auto simp: worker_nil_def panic_def chan_recv_def split: list.splits)

lemma worker_exit_iff: "worker_exit i s = Some t \<longleftrightarrow> worker_is s i Idle \<and> ms_cancelled s \<and> t = s\<lparr>workers := (workers s)[i := Gone]\<rparr>"
  by (auto simp: worker_exit_def)

lemma worker_done_iff: "worker_done L U isc i rand sc w s = Some t \<longleftrightarrow> delivered (wld w) = [] \<and>
   (\<exists>b w'. worker_is s i (Holds b) \<and>
      ((\<exists>e. SendMetricsBatch L U rand isc sc (sender s) b w = Some (Returned e, w') \<and>
          t = s\<lparr>workers := (workers s)[i := Idle], finished := finished s @ [b],
                deliveries := deliveries s @ map (Pair b) (delivered (wld w'))\<rparr>)
       \<or> (\<exists>m. SendMetricsBatch L U rand isc sc (sender s) b w = Some (Panicked m, w') \<and> t = s\<lparr>panicked := True\<rparr>)))"
  by (auto simp: worker_done_def worker_is_def panic_def split: goroutine.splits option.splits outcome.splits)

lemmas op_iffs = tick_iff put_iff collector_exit_iff transfer_take_iff transfer_put_iff transfer_exit_iff submit_take_iff
  submit_put_iff worker_take_iff worker_nil_iff worker_exit_iff worker_done_iff

section \<open>Where the batches are\<close>

text \<open>The queue from the collectors' puts to the workers, front first, and the rest.\<close>

definition pipeline :: "agent \<Rightarrow> batch list" where
  "pipeline s = buf (tasks s) @ held (submitter s) @ buf (ms_chan s) @ held (transfer s) @ buf (mc_chan s)"

definition busy :: "goroutine list \<Rightarrow> batch list" where
  "busy ws = concat (map held ws)"

definition waiting :: "agent \<Rightarrow> batch list" where
  "waiting s = held (coll s Runtime) @ held (coll s System)"

definition conserved :: "agent \<Rightarrow> bool" where
  "conserved s \<longleftrightarrow> mset (produced s) = mset (finished s) + mset (dropped s) + mset (busy (workers s)) + mset (pipeline s) + mset (waiting s)"

lemma busy_update: "i < length ws \<Longrightarrow> mset (busy (ws[i := g])) + mset (held (ws ! i)) = mset (busy ws) + mset (held g)"
  unfolding busy_def
proof (induction ws arbitrary: i)
  case (Cons a ws)
  then show ?case by (cases i) (simp_all add: ac_simps)
qed simp

lemma busy_worker:
  "worker_is s i Idle \<Longrightarrow> mset (busy ((workers s)[i := g])) = mset (held g) + mset (busy (workers s))"
  "worker_is s i (Holds b) \<Longrightarrow> mset (busy (workers s)) = add_mset b (mset (busy ((workers s)[i := Idle])))"
  using busy_update [of i "workers s" g] busy_update [of i "workers s" Idle] by (auto simp: worker_is_def)

lemma shutdown_keeps:
  assumes "shutdown_exec e s = Some t"
  shows "coll t = coll s" "buf (mc_chan t) = buf (mc_chan s)" "transfer t = transfer s" "buf (ms_chan t) = buf (ms_chan s)"
    "submitter t = submitter s" "buf (tasks t) = buf (tasks s)" "workers t = workers s" "produced t = produced s"
    "finished t = finished s" "dropped t = dropped s" "deliveries t = deliveries s" "panicked t = panicked s"
    "run_ctx_done t = run_ctx_done s" "sender t = sender s" "collector_key t = collector_key s"
  using assms by (cases e; clarsimp simp: shutdown_defs chan_close_def split: if_splits)+

lemma agent_step_conserves:
  assumes "agent_step L U isc s e t" and "conserved s"
  shows "conserved t"
proof -
  have run: "\<not> panicked s" "apc s \<noteq> Exited" using agent_step_runs [OF assms(1)] by simp_all
  note step = assms(1) [unfolded agent_step_def agent_exec_def] and c = assms(2) [unfolded conserved_def pipeline_def waiting_def]
  note here = conserved_def pipeline_def waiting_def
  show ?thesis
  proof (cases e)
    case (RuntimeTick ord m rv)
    then show ?thesis using step c run by (auto simp: op_iffs here split: prod.splits)
  next
    case (CollectorPut w b)
    then show ?thesis using step c run by (cases w) (auto simp: op_iffs here)
  next
    case (CollectorExit w)
    then show ?thesis using step c run by (cases w) (auto simp: op_iffs here)
  next
    case (WorkerTake i b)
    then show ?thesis using step c run by (auto simp: op_iffs here busy_worker)
  next
    case (WorkerExit i)
    then show ?thesis using step c run by (auto simp: op_iffs here busy_worker)
  next
    case (WorkerDone i rand sc w)
    then show ?thesis using step c run by (auto simp: op_iffs here busy_worker(2))
  qed (use step c run in \<open>auto simp: op_iffs here shutdown_keeps\<close>)
qed

section \<open>The pipeline is a queue\<close>

fun puts :: "agent_event \<Rightarrow> batch list" where
  "puts (CollectorPut w b) = [b]"
| "puts e = []"

fun takes :: "agent_event \<Rightarrow> batch list" where
  "takes (WorkerTake i b) = [b]"
| "takes e = []"

text \<open>A panic ends the process; the context given to Run makes the transfer goroutine drop a batch.\<close>

definition queue_broken :: "agent \<Rightarrow> bool" where
  "queue_broken s \<longleftrightarrow> panicked s \<or> run_ctx_done s"

lemma agent_step_queue:
  assumes "agent_step L U isc s e t" and "\<not> queue_broken t"
  shows "pipeline s @ puts e = takes e @ pipeline t"
proof -
  have run: "\<not> panicked s" "apc s \<noteq> Exited" using agent_step_runs [OF assms(1)] by simp_all
  show ?thesis
    using assms run by (cases e)
      (auto simp: agent_step_def agent_exec_def op_iffs queue_broken_def pipeline_def shutdown_keeps
        split: prod.splits)
qed

lemma agent_step_broken:
  assumes "agent_step L U isc s e t" and "queue_broken s"
  shows "queue_broken t"
proof -
  have run: "\<not> panicked s" "apc s \<noteq> Exited" using agent_step_runs [OF assms(1)] by simp_all
  show ?thesis
    using assms run by (cases e)
      (auto simp: agent_step_def agent_exec_def op_iffs queue_broken_def shutdown_keeps split: prod.splits)
qed

interpretation pipe: queueing "agent_step L U isc" pipeline puts takes queue_broken for L U isc
  using agent_step_queue agent_step_broken by unfold_locales blast+

section \<open>The invariant\<close>

definition long_key :: "MetricsSender \<Rightarrow> bool" where
  "long_key A \<longleftrightarrow> (case ms_publicKey A of None \<Rightarrow> True | Some P \<Rightarrow> 11 \<le> Size (pub_N P))"

lemma no_send_panic: "long_key A \<Longrightarrow> SendMetricsBatch L U rand isc sc A b w \<noteq> Some (Panicked m, w')"
  using SendMetricsBatch_result [of L U rand isc sc A b w] by (auto simp: long_key_def)

text \<open>Which flags go with which statement of the shutdown, and who may have returned.\<close>

definition orderly :: "agent \<Rightarrow> bool" where
  "orderly s \<longleftrightarrow>
     (mc_cancelled s \<longrightarrow> apc s \<notin> {Running, Signalled})
   \<and> (chan_closed (mc_chan s) \<longrightarrow> apc s \<notin> {Running, Signalled, CollectorWait})
   \<and> (ms_cancelled s \<or> pool s \<noteq> PoolRunning \<longrightarrow> apc s \<in> {SenderWait, SenderStopped, Exited})
   \<and> (chan_closed (tasks s) \<longrightarrow> pool s = PoolStopped)
   \<and> (chan_closed (ms_chan s) \<longrightarrow> apc s \<in> {SenderStopped, Exited})
   \<and> (apc s \<in> {StopSender, SenderWait, SenderStopped} \<longrightarrow> transfer s = Gone)
   \<and> (coll s Runtime = Gone \<or> coll s System = Gone \<longrightarrow> mc_cancelled s)
   \<and> (transfer s = Gone \<longrightarrow> chan_closed (mc_chan s) \<or> run_ctx_done s)
   \<and> (submitter s = Gone \<longrightarrow> chan_closed (ms_chan s))
   \<and> (Gone \<in> set (workers s) \<longrightarrow> ms_cancelled s)
   \<and> (panicked s \<longrightarrow> apc s \<notin> {Running, Signalled, CollectorWait})
   \<and> (dropped s \<noteq> [] \<longrightarrow> mc_cancelled s \<or> run_ctx_done s)"

definition room :: "agent \<Rightarrow> bool" where
  "room s \<longleftrightarrow> length (buf (mc_chan s)) \<le> 100 \<and> length (buf (ms_chan s)) \<le> 100 \<and> length (buf (tasks s)) \<le> 100"

lemma orderly_tasks:
  assumes "orderly s" and "chan_closed (tasks s)"
  shows "apc s \<in> {SenderWait, SenderStopped, Exited}"
proof -
  have "pool s = PoolStopped" using assms by (simp add: orderly_def)
  then show ?thesis using assms by (simp add: orderly_def)
qed

lemma orderly_panic: "orderly s \<Longrightarrow> apc s \<noteq> Running \<and> apc s \<noteq> Signalled \<and> apc s \<noteq> CollectorWait \<Longrightarrow> orderly (s\<lparr>panicked := True\<rparr>)"
  by (simp add: orderly_def)

text \<open>The same as stages: what has been reached when a flag is set.\<close>

lemma orderly_stages:
  assumes "orderly s"
  shows "mc_cancelled s \<Longrightarrow> CollectorWait \<le> apc s" "chan_closed (mc_chan s) \<Longrightarrow> TransferWait \<le> apc s"
    "ms_cancelled s \<Longrightarrow> SenderWait \<le> apc s" "chan_closed (ms_chan s) \<Longrightarrow> SenderStopped \<le> apc s"
    "panicked s \<Longrightarrow> TransferWait \<le> apc s" "dropped s \<noteq> [] \<Longrightarrow> CollectorWait \<le> apc s \<or> run_ctx_done s"
  using assms by (cases "apc s"; simp add: orderly_def less_eq_agent_pc_def)+

lemma worker_Gone:
  assumes "worker_is s i g'" and "g' \<noteq> Gone"
  shows "Gone \<in> set ((workers s)[i := g]) \<longleftrightarrow> g = Gone \<or> Gone \<in> set (workers s)"
  using assms by (auto simp: worker_is_def in_set_conv_nth nth_list_update)

lemma agent_step_room:
  assumes "agent_step L U isc s e t" and "room s"
  shows "room t"
proof -
  have run: "\<not> panicked s" "apc s \<noteq> Exited" using agent_step_runs [OF assms(1)] by simp_all
  show ?thesis
    using assms run
    by (cases e; clarsimp simp: agent_step_def agent_exec_def op_iffs split: prod.splits; (elim disjE exE conjE)?;
        simp add: room_def shutdown_keeps)
qed

lemma shutdown_orderly:
  assumes "shutdown_exec e s = Some t" and "orderly s" and "\<not> panicked s" and "apc s \<noteq> Exited"
  shows "orderly t"
  using assms
  by (cases e; simp add: shutdown_defs split: if_splits; clarsimp simp: orderly_def chan_close_def; auto)

text \<open>What the goroutines do keeps it, one lemma for each kind.\<close>

lemma orderly_pollCount [simp]: "orderly (s\<lparr>pollCount := pc\<rparr>) = orderly s"
  by (simp add: orderly_def)

lemma collector_orderly:
  assumes "orderly s"
  shows "collector_tick w b s = Some t \<Longrightarrow> orderly t"
    "collector_put w b s = Some t \<Longrightarrow> orderly t" "collector_exit w s = Some t \<Longrightarrow> orderly t"
proof -
  show "collector_tick w b s = Some t \<Longrightarrow> orderly t"
    using assms by (cases w; clarsimp simp: tick_iff; simp add: orderly_def)
  show "collector_put w b s = Some t \<Longrightarrow> orderly t" "collector_exit w s = Some t \<Longrightarrow> orderly t"
    using assms by (cases w; clarsimp simp: put_iff collector_exit_iff; (elim disjE exE conjE)?; simp add: orderly_def)+
qed

lemma transfer_orderly:
  assumes "orderly s"
  shows "transfer_take s = Some t \<Longrightarrow> orderly t" "transfer_put s = Some t \<Longrightarrow> orderly t" "transfer_exit s = Some t \<Longrightarrow> orderly t"
  using assms
  by (clarsimp simp: transfer_take_iff transfer_put_iff transfer_exit_iff; (elim disjE exE conjE)?; simp add: orderly_def; auto)+

lemma submit_orderly:
  assumes "orderly s"
  shows "submit_take s = Some t \<Longrightarrow> orderly t" "submit_put s = Some t \<Longrightarrow> orderly t"
proof -
  show "submit_take s = Some t \<Longrightarrow> orderly t"
    using assms by (clarsimp simp: submit_take_iff; (elim disjE exE conjE)?; simp add: orderly_def)
  assume "submit_put s = Some t"
  then consider "chan_closed (tasks s)" "t = s\<lparr>panicked := True\<rparr>"
    | b where "t = s\<lparr>tasks := tasks s\<lparr>buf := buf (tasks s) @ [b]\<rparr>, submitter := Idle\<rparr>"
    by (auto simp: submit_put_iff)
  then show "orderly t"
  proof cases
    case 1
    then show ?thesis using orderly_panic [OF assms] orderly_tasks [OF assms] by auto
  next
    case 2
    then show ?thesis using assms by (simp add: orderly_def)
  qed
qed

lemma worker_orderly:
  assumes "orderly s"
  shows "worker_take i b s = Some t \<Longrightarrow> orderly t" "worker_nil i s = Some t \<Longrightarrow> orderly t" "worker_exit i s = Some t \<Longrightarrow> orderly t"
    and "worker_done L U isc i rand sc w s = Some t \<Longrightarrow> long_key (sender s) \<Longrightarrow> orderly t"
proof -
  show "worker_take i b s = Some t \<Longrightarrow> orderly t" "worker_exit i s = Some t \<Longrightarrow> orderly t"
    using assms by (clarsimp simp: worker_take_iff worker_exit_iff; simp add: orderly_def worker_Gone)+
  show "worker_nil i s = Some t \<Longrightarrow> orderly t"
    using orderly_tasks [OF assms] orderly_panic [OF assms] by (auto simp: worker_nil_iff)
  show "worker_done L U isc i rand sc w s = Some t \<Longrightarrow> long_key (sender s) \<Longrightarrow> orderly t"
    using assms by (clarsimp simp: worker_done_iff no_send_panic; simp add: orderly_def worker_Gone)
qed

lemma agent_step_orderly:
  assumes "agent_step L U isc s e t" and "orderly s" and "long_key (sender s)"
  shows "orderly t"
proof -
  have run: "\<not> panicked s" "apc s \<noteq> Exited" using agent_step_runs [OF assms(1)] by simp_all
  note step = assms(1) [unfolded agent_step_def agent_exec_def]
  note ops = collector_orderly [OF assms(2)] transfer_orderly [OF assms(2)] submit_orderly [OF assms(2)] worker_orderly [OF assms(2)]
    shutdown_orderly [OF _ assms(2) run]
  show ?thesis
  proof (cases e)
    case RunContextDone
    then have "t = s\<lparr>run_ctx_done := True\<rparr>" using step run by simp
    then show ?thesis using assms(2) by (simp add: orderly_def)
  qed (use step run assms(3) in \<open>auto split: prod.splits dest: ops\<close>)
qed

lemma agent_step_fixed:
  assumes "agent_step L U isc s e t"
  shows "sender t = sender s \<and> length (workers t) = length (workers s)"
proof -
  have run: "\<not> panicked s" "apc s \<noteq> Exited" using agent_step_runs [OF assms] by simp_all
  show ?thesis
    using assms run
    by (cases e; clarsimp simp: agent_step_def agent_exec_def op_iffs split: prod.splits; (elim disjE exE conjE)?;
        simp add: shutdown_keeps)
qed

definition agent_inv :: "agent \<Rightarrow> bool" where
  "agent_inv s \<longleftrightarrow> orderly s \<and> room s \<and> conserved s \<and> long_key (sender s) \<and> workers s \<noteq> []"

interpretation life: step_invariant "agent_step L U isc" agent_inv for L U isc
proof
  fix s e t
  assume "agent_inv s" and step: "agent_step L U isc s e t"
  then show "agent_inv t"
    using agent_step_orderly [OF step] agent_step_room [OF step] agent_step_conserves [OF step] agent_step_fixed [OF step] by (auto simp: agent_inv_def)
qed

lemma start_agent_inv:
  assumes "start_agent KL fs cfg = Returned s" and "0 < RateLimit cfg" and "long_key (sender s)"
  shows "agent_inv s" "pipeline s = []" "produced s = []" "deliveries s = []" "finished s = []" "\<not> queue_broken s" "apc s = Running"
  using assms by (auto simp: start_agent_defs NewMetricsSender_def agent_inv_def orderly_def room_def
      conserved_def pipeline_def waiting_def busy_def make_chan_def queue_broken_def split: if_splits)

text \<open>The shutdown only goes forward.\<close>

lemma shutdown_forward: "shutdown_exec e s = Some t \<Longrightarrow> apc s \<le> apc t"
  by (cases e; cases "apc s"; auto simp: shutdown_defs less_eq_agent_pc_def split: if_splits)

lemma agent_step_forward:
  assumes "agent_step L U isc s e t"
  shows "apc s \<le> apc t"
proof -
  have run: "\<not> panicked s" "apc s \<noteq> Exited" using agent_step_runs [OF assms] by simp_all
  show ?thesis
    using assms run
    by (cases e; clarsimp simp: agent_step_def agent_exec_def op_iffs split: prod.splits; (elim disjE exE conjE)?;
        simp add: shutdown_forward)
qed

interpretation forward: step_invariant "agent_step L U isc" "\<lambda>s. p \<le> apc s" for L U isc p
  using agent_step_forward by unfold_locales (rule order_trans)

section \<open>Deliveries\<close>

definition delivered_once :: "agent \<Rightarrow> bool" where
  "delivered_once s \<longleftrightarrow> mset (map fst (deliveries s)) \<subseteq># mset (finished s)"

lemma SendMetricsBatch_delivers_one:
  assumes "SendMetricsBatch L U rand isc sc A b w = Some (res, w')" and "delivered (wld w) = []" and "\<And>b. Gzip L b \<noteq> []"
  shows "image_mset (fst \<circ> Pair b) (mset (delivered (wld w'))) \<subseteq># {#b#}"
proof (cases "b = []")
  case True
  then show ?thesis using assms(1,2) by (simp add: SendMetricsBatch_def)
next
  case False
  from SendMetricsBatch_delivers [OF assms(1) this assms(3)] assms(2) show ?thesis by auto
qed

lemma agent_step_delivered:
  assumes "agent_step L U isc s e t" and "delivered_once s" and "\<And>b. Gzip L b \<noteq> []"
  shows "delivered_once t"
proof -
  have run: "\<not> panicked s" "apc s \<noteq> Exited" using agent_step_runs [OF assms(1)] by simp_all
  note step = assms(1) [unfolded agent_step_def agent_exec_def] and o = assms(2)
  show ?thesis
  proof (cases e)
    case (WorkerDone i rand sc w)
    have add: "A + D \<subseteq># add_mset b F" if "A \<subseteq># F" "D \<subseteq># {#b#}" for A D F and b :: batch
      using subset_mset.add_mono [OF that] by simp
    show ?thesis using WorkerDone step run o add [OF _ SendMetricsBatch_delivers_one [OF _ _ assms(3)]]
      by (clarsimp simp: op_iffs; (elim disjE exE conjE)?; simp add: delivered_once_def)
  qed (use step run o in \<open>auto simp: op_iffs delivered_once_def shutdown_keeps split: prod.splits\<close>)
qed

interpretation arrivals: step_invariant "agent_step L U isc" "\<lambda>s. (\<forall>b. Gzip L b \<noteq> []) \<longrightarrow> delivered_once s" for L U isc
  using agent_step_delivered by unfold_locales blast

section \<open>Draining\<close>

text \<open>Events of an agent that works off what it has: no ticks, no signal, no failures.\<close>

fun works_off :: "agent_event \<Rightarrow> bool" where
  "works_off (CollectorPut w b) = True"
| "works_off TransferTake = True"
| "works_off TransferPut = True"
| "works_off SubmitTake = True"
| "works_off SubmitPut = True"
| "works_off (WorkerTake i b) = True"
| "works_off (WorkerDone i rand sc w) = True"
| "works_off e = False"

text \<open>An agent at work: before the signal, with the context of Run alive.\<close>

definition at_work :: "agent \<Rightarrow> bool" where
  "at_work s \<longleftrightarrow> agent_inv s \<and> apc s = Running \<and> \<not> run_ctx_done s"

definition work_step :: "golib \<Rightarrow> urllib \<Rightarrow> (string \<Rightarrow> bool) \<Rightarrow> agent \<Rightarrow> agent_event \<Rightarrow> agent \<Rightarrow> bool" where
  "work_step L U isc s e t \<longleftrightarrow> agent_step L U isc s e t \<and> works_off e"

definition all_sent :: "agent \<Rightarrow> bool" where
  "all_sent s \<longleftrightarrow> waiting s = [] \<and> pipeline s = [] \<and> busy (workers s) = []"

definition agent_work :: "agent \<Rightarrow> nat" where
  "agent_work s = 7 * length (waiting s) + 6 * length (buf (mc_chan s)) + 5 * length (held (transfer s))
     + 4 * length (buf (ms_chan s)) + 3 * length (held (submitter s)) + 2 * length (buf (tasks s)) + length (busy (workers s))"

lemma agent_work_bound: "conserved s \<Longrightarrow> agent_work s \<le> 7 * length (produced s)"
  by (drule arg_cong [of _ _ size, OF iffD1 [OF conserved_def]])
    (simp add: agent_work_def pipeline_def)

lemma work_step_at_work:
  assumes "work_step L U isc s e t" and "at_work s"
  shows "at_work t \<and> produced t = produced s"
proof -
  have step: "agent_step L U isc s e t" and w: "works_off e" using assms(1) by (simp_all add: work_step_def)
  have inv: "agent_inv t" using life.step_keeps [OF _ step] assms(2) by (simp add: at_work_def)
  have "apc t = apc s \<and> run_ctx_done t = run_ctx_done s \<and> produced t = produced s"
    using step w agent_step_runs [OF step]
    by (cases e; clarsimp simp: agent_step_def agent_exec_def op_iffs; (elim disjE exE conjE)?; simp)
  with inv assms(2) show ?thesis by (simp add: at_work_def)
qed

lemma busy_Nil: "busy ws = [] \<longleftrightarrow> (\<forall>i < length ws. \<forall>b. ws ! i \<noteq> Holds b)"
proof -
  have "busy ws = [] \<longleftrightarrow> (\<forall>g \<in> set ws. held g = [])" by (auto simp: busy_def)
  also have "\<dots> \<longleftrightarrow> (\<forall>g \<in> set ws. \<forall>b. g \<noteq> Holds b)"
    by (intro ball_cong refl) (metis held.simps goroutine.exhaust list.distinct(1))
  finally show ?thesis by (auto simp: all_set_conv_all_nth)
qed

lemma idle_worker: "busy (workers s) = [] \<Longrightarrow> workers s \<noteq> [] \<Longrightarrow> Gone \<notin> set (workers s) \<Longrightarrow> worker_is s 0 Idle"
  by (cases "workers s ! 0") (auto simp: busy_Nil worker_is_def in_set_conv_nth)

lemma length_busy:
  "worker_is s i Idle \<Longrightarrow> length (busy ((workers s)[i := Holds b])) = Suc (length (busy (workers s)))"
  "worker_is s i (Holds b) \<Longrightarrow> length (busy (workers s)) = Suc (length (busy ((workers s)[i := Idle])))"
  using arg_cong [OF busy_worker(1) [of s i "Holds b"], of size] arg_cong [OF busy_worker(2) [of s i b], of size] by simp_all

text \<open>The last goroutine on the way that holds a batch or can take one moves on.\<close>

lemma work_available:
  assumes "\<not> all_sent s" and "\<And>w. coll s w \<noteq> Gone" and "transfer s \<noteq> Gone" and "submitter s \<noteq> Gone"
  obtains (send) i b where "worker_is s i (Holds b)" | (take) b q where "busy (workers s) = []" "buf (tasks s) = b # q"
    | (submit) b where "buf (tasks s) = []" "submitter s = Holds b"
    | (fetch) b q where "submitter s = Idle" "buf (ms_chan s) = b # q"
    | (move) b where "buf (ms_chan s) = []" "transfer s = Holds b"
    | (receive) b q where "transfer s = Idle" "buf (mc_chan s) = b # q"
    | (put) w b where "buf (mc_chan s) = []" "coll s w = Holds b"
proof -
  have holds: "held g \<noteq> [] \<Longrightarrow> \<exists>b. g = Holds b" "g \<noteq> Idle \<Longrightarrow> g \<noteq> Gone \<Longrightarrow> \<exists>b. g = Holds b" for g by (cases g; simp)+
  have some: "xs \<noteq> [] \<Longrightarrow> \<exists>b q. xs = b # q" for xs :: "batch list" by (cases xs) auto
  consider "busy (workers s) \<noteq> []" | "busy (workers s) = []" "buf (tasks s) \<noteq> []"
    | "buf (tasks s) = []" "submitter s \<noteq> Idle" | "submitter s = Idle" "buf (ms_chan s) \<noteq> []"
    | "buf (ms_chan s) = []" "transfer s \<noteq> Idle" | "transfer s = Idle" "buf (mc_chan s) \<noteq> []"
    | "busy (workers s) = []" "pipeline s = []"
    by (cases "submitter s = Idle"; cases "transfer s = Idle"; auto simp: pipeline_def)
  then show ?thesis
  proof cases
    case 1
    then show ?thesis using send by (auto simp: busy_Nil worker_is_def)
  next
    case 2
    then show ?thesis using take some by blast
  next
    case 3
    then show ?thesis using submit holds(2) assms(4) by blast
  next
    case 4
    then show ?thesis using fetch some by blast
  next
    case 5
    then show ?thesis using move holds(2) assms(3) by blast
  next
    case 6
    then show ?thesis using receive some by blast
  next
    case 7
    then have "held (coll s Runtime) \<noteq> [] \<or> held (coll s System) \<noteq> []" "buf (mc_chan s) = []"
      using assms(1) by (auto simp: all_sent_def waiting_def pipeline_def)
    then show ?thesis using put holds(1) by blast
  qed
qed

lemma work_progress:
  assumes "at_work s" and "\<not> all_sent s"
  shows "\<exists>e t. works_off e \<and> work_step L U isc s e t \<and> agent_work t < agent_work s"
proof -
  have inv: "orderly s" "long_key (sender s)" "workers s \<noteq> []" and pc: "apc s = Running" "\<not> run_ctx_done s"
    using assms(1) by (simp_all add: at_work_def agent_inv_def)
  have open_all: "\<not> chan_closed (mc_chan s)" "\<not> chan_closed (ms_chan s)" "\<not> chan_closed (tasks s)" "\<not> panicked s"
    and gone: "coll s w \<noteq> Gone" "transfer s \<noteq> Gone" "submitter s \<noteq> Gone" "Gone \<notin> set (workers s)" for w
    using inv(1) pc by (cases w; simp add: orderly_def)+
  note exec = agent_exec_def open_all pc agent_work_def waiting_def chan_send_def chan_recv_def worker_done_def worker_take_def
    submit_put_def submit_take_def transfer_put_def transfer_take_def collector_put_def
  have use: ?thesis if "works_off e" "agent_exec L U isc e s = Some t" "agent_work t < agent_work s" for e t
    using that by (auto simp: work_step_def agent_step_def)
  show ?thesis
  proof (cases rule: work_available [OF assms(2) gone(1-3), case_names send take submit fetch move receive put])
    case (send i b)
    let ?sc = "\<lparr>tie = (\<lambda>_. True), lag = (\<lambda>_. 0)\<rparr>" and ?w = "\<lparr>now = 0, wld = \<lparr>unread = [], delivered = [], script = []\<rparr>\<rparr>"
    obtain e w' where "SendMetricsBatch L U sample_rand isc ?sc (sender s) b ?w = Some (Returned e, w')"
      using SendMetricsBatch_result no_send_panic [OF inv(2)] by (metis outcome.exhaust)
    then show ?thesis
      using send length_busy(2) [OF send]
      by - (rule use [of "WorkerDone i sample_rand ?sc ?w"], (simp add: exec worker_is_def)+)
  next
    case (take b q)
    then show ?thesis using idle_worker [OF take(1) inv(3) gone(4)]
      by - (rule use [of "WorkerTake 0 b"], (simp add: exec length_busy(1))+)
  next
    case (submit b)
    then show ?thesis by - (rule use [of SubmitPut], (simp add: exec)+)
  next
    case (fetch b q)
    then show ?thesis by - (rule use [of SubmitTake], (simp add: exec)+)
  next
    case (move b)
    then show ?thesis by - (rule use [of TransferPut], (simp add: exec)+)
  next
    case (receive b q)
    then show ?thesis by - (rule use [of TransferTake], (simp add: exec)+)
  next
    case (put w b)
    then show ?thesis by - (cases w, (rule use [of "CollectorPut w b"], simp, simp add: exec, simp add: exec)+)
  qed
qed

interpretation work: draining "work_step L U isc" at_work all_sent agent_work works_off for L U isc
  using work_step_at_work work_progress by unfold_locales blast+

section \<open>A shutdown\<close>

fun timed_out :: "agent_event \<Rightarrow> bool" where
  "timed_out (CollectorClose b) = b"
| "timed_out (PoolClose b) = b"
| "timed_out (SenderClose b) = b"
| "timed_out (RunReturn b) = b"
| "timed_out e = False"

text \<open>The statements of a shutdown in which no wait times out, up to the end of the pool's Stop.\<close>

definition orderly_stop :: "nat \<Rightarrow> agent_event list" where
  "orderly_stop n = [Signal, CollectorCancel, CollectorExit Runtime, CollectorExit System, CollectorClose False,
     TransferTake, TransferWaited, SenderCancel] @ map WorkerExit [0..<n] @ [PoolClose False]"

lemma workers_leave:
  assumes "workers s = replicate n Idle" and "ms_cancelled s" and "\<not> panicked s" and "apc s \<noteq> Exited" and "k \<le> n"
  shows "run (agent_step L U isc) s (map WorkerExit [0..<k]) (s\<lparr>workers := replicate k Gone @ replicate (n - k) Idle\<rparr>)"
  using assms(5)
proof (induction k)
  case 0
  then show ?case using assms(1) by simp
next
  case (Suc k)
  then obtain m where m: "n - k = Suc m" "n - Suc k = m" by (cases "n - k") auto
  have "agent_step L U isc (s\<lparr>workers := replicate k Gone @ replicate (n - k) Idle\<rparr>) (WorkerExit k)
      (s\<lparr>workers := replicate (Suc k) Gone @ replicate (n - Suc k) Idle\<rparr>)"
    using assms(2-4) m by (simp add: agent_step_def agent_exec_def worker_exit_def worker_is_def nth_append list_update_append
      replicate_app_Cons_same)
  then show ?case using Suc by (simp add: run_append [OF Suc.IH run_one])
qed

lemma stop_runs:
  assumes "workers s = replicate n Idle" and "apc s = Running" and "\<not> panicked s" and "coll s = (\<lambda>_. Idle)" and "transfer s = Idle"
    and "mc_chan s = make_chan" and "pool s = PoolRunning"
  shows "\<exists>t. run (agent_step L U isc) s (orderly_stop n) t \<and> apc t = SenderWait \<and> pool t = PoolStopped \<and> \<not> panicked t
    \<and> chan_closed (tasks t) \<and> buf (tasks t) = buf (tasks s) \<and> submitter t = submitter s \<and> workers t = replicate n Gone
    \<and> produced t = produced s \<and> finished t = finished s \<and> dropped t = dropped s"
proof -
  let ?c = "s\<lparr>apc := SenderWait, mc_cancelled := True, coll := (\<lambda>_. Gone), mc_chan := chan_close (mc_chan s), transfer := Gone,
    ms_cancelled := True, pool := PoolWait\<rparr>"
  have gone: "(\<lambda>_. Idle)(Runtime := Gone, System := Gone) = (\<lambda>_. Gone)"
    by (rule ext) (metis fun_upd_apply source.exhaust)
  have 1: "run (agent_step L U isc) s [Signal, CollectorCancel, CollectorExit Runtime, CollectorExit System, CollectorClose False,
      TransferTake, TransferWaited, SenderCancel] ?c"
    using assms by (simp add: run_cons_iff agent_step_def agent_exec_def shutdown_defs collector_exit_def transfer_take_def
      chan_recv_def chan_close_def make_chan_def gone)
  have 2: "run (agent_step L U isc) ?c (map WorkerExit [0..<n]) (?c\<lparr>workers := replicate n Gone\<rparr>)"
    using workers_leave [of ?c n n] assms(1,3) by simp
  have 3: "run (agent_step L U isc) (?c\<lparr>workers := replicate n Gone\<rparr>) [PoolClose False]
      (?c\<lparr>workers := replicate n Gone, pool := PoolStopped, tasks := chan_close (tasks s)\<rparr>)"
    using assms(3) by (simp add: run_cons_iff agent_step_def agent_exec_def shutdown_defs list_all_iff)
  show ?thesis
    using run_append [OF 1 run_append [OF 2 3]] assms
    by (intro exI [of _ "?c\<lparr>workers := replicate n Gone, pool := PoolStopped, tasks := chan_close (tasks s)\<rparr>"])
      (simp add: orderly_stop_def chan_close_def)
qed

lemma start_agent_fields:
  assumes "start_agent KL fs cfg = Returned s"
  shows "workers s = replicate (nat (ms_poolSize (sender s))) Idle" "apc s = Running" "\<not> panicked s" "coll s = (\<lambda>_. Idle)"
    "transfer s = Idle" "mc_chan s = make_chan" "pool s = PoolRunning" "ms_chan s = make_chan" "tasks s = make_chan"
    "submitter s = Idle" "produced s = []" "finished s = []" "dropped s = []" "collector_key s = AgentKey cfg"
  using assms by (auto simp: start_agent_defs split: if_splits)

text \<open>One batch of system metrics on its way into the pool.\<close>

lemma one_batch:
  fixes vm cpus
  assumes "start_agent KL fs cfg = Returned s"
  defines "b \<equiv> CollectSystemMetricsData (AgentKey cfg) vm cpus"
  shows "run (agent_step L U isc) s [SystemTick vm cpus, CollectorPut System b, TransferTake, TransferPut, SubmitTake]
    (s\<lparr>submitter := Holds b, produced := [b]\<rparr>)"
proof -
  note f = start_agent_fields [OF assms(1)]
  have idle: "(\<lambda>_. Idle)(System := Idle) = (\<lambda>_. Idle)" by auto
  show ?thesis
    using f by (cases s) (simp add: run_cons_iff agent_step_def agent_exec_def collector_tick_def collector_put_def transfer_take_def
      transfer_put_def submit_take_def chan_send_def chan_recv_def make_chan_def b_def idle)
qed

text \<open>
  The batch is in the hands of the submitting goroutine, or already among the tasks, when the
  pool is stopped.
\<close>

lemma stop_with_batch_held:
  fixes vm cpus
  assumes "start_agent KL fs cfg = Returned s"
  defines "b \<equiv> CollectSystemMetricsData (AgentKey cfg) vm cpus"
  shows "\<exists>es t. run (agent_step L U isc) s es t \<and> list_all (\<lambda>e. \<not> timed_out e) es \<and> panicked t"
proof -
  let ?n = "nat (ms_poolSize (sender s))" and ?s = "s\<lparr>submitter := Holds b, produced := [b]\<rparr>"
  let ?es = "[SystemTick vm cpus, CollectorPut System b, TransferTake, TransferPut, SubmitTake]"
  note f = start_agent_fields [OF assms(1)]
  have 1: "run (agent_step L U isc) s ?es ?s" unfolding b_def by (rule one_batch [OF assms(1)])
  have "\<exists>t. run (agent_step L U isc) ?s (orderly_stop ?n) t \<and> apc t = SenderWait \<and> \<not> panicked t \<and> chan_closed (tasks t)
      \<and> submitter t = Holds b" using stop_runs [of ?s ?n L U isc] f by auto
  then obtain t where 2: "run (agent_step L U isc) ?s (orderly_stop ?n) t" and t: "apc t = SenderWait" "\<not> panicked t"
    "chan_closed (tasks t)" "submitter t = Holds b" by blast
  have 3: "run (agent_step L U isc) t [SubmitPut] (t\<lparr>panicked := True\<rparr>)"
    using t by (simp add: run_cons_iff agent_step_def agent_exec_def submit_put_def chan_send_def panic_def)
  have "list_all (\<lambda>e. \<not> timed_out e) (?es @ orderly_stop ?n @ [SubmitPut])"
    by (auto simp: orderly_stop_def list_all_iff)
  with run_append [OF 1 run_append [OF 2 3]] show ?thesis by fastforce
qed

lemma stop_with_task_queued:
  fixes vm cpus
  assumes "start_agent KL fs cfg = Returned s"
  defines "b \<equiv> CollectSystemMetricsData (AgentKey cfg) vm cpus"
  shows "\<exists>es t. run (agent_step L U isc) s es t \<and> list_all (\<lambda>e. \<not> timed_out e) es \<and> apc t = Exited
    \<and> produced t = [b] \<and> finished t = [] \<and> dropped t = [] \<and> buf (tasks t) = [b]"
proof -
  let ?n = "nat (ms_poolSize (sender s))" and ?s = "s\<lparr>submitter := Holds b, produced := [b]\<rparr>"
  let ?u = "?s\<lparr>submitter := Idle, tasks := make_chan\<lparr>buf := [b]\<rparr>\<rparr>"
  let ?es = "[SystemTick vm cpus, CollectorPut System b, TransferTake, TransferPut, SubmitTake]"
  note f = start_agent_fields [OF assms(1)]
  have 1: "run (agent_step L U isc) s ?es ?s" unfolding b_def by (rule one_batch [OF assms(1)])
  have 2: "run (agent_step L U isc) ?s [SubmitPut] ?u"
    using f by (simp add: run_cons_iff agent_step_def agent_exec_def submit_put_def chan_send_def make_chan_def)
  have "\<exists>t. run (agent_step L U isc) ?u (orderly_stop ?n) t \<and> apc t = SenderWait \<and> \<not> panicked t \<and> pool t = PoolStopped
      \<and> buf (tasks t) = [b] \<and> produced t = [b] \<and> finished t = [] \<and> dropped t = []"
    using stop_runs [of ?u ?n L U isc] f by auto
  then obtain t where 3: "run (agent_step L U isc) ?u (orderly_stop ?n) t" and t: "apc t = SenderWait" "\<not> panicked t"
    "pool t = PoolStopped" "buf (tasks t) = [b]" "produced t = [b]" "finished t = []" "dropped t = []" by blast
  have 4: "run (agent_step L U isc) t [SenderClose False, RunReturn False]
      (t\<lparr>apc := Exited, ms_chan := chan_close (ms_chan t)\<rparr>)"
    using t by (simp add: run_cons_iff agent_step_def agent_exec_def shutdown_defs)
  have "list_all (\<lambda>e. \<not> timed_out e) (?es @ [SubmitPut] @ orderly_stop ?n @ [SenderClose False, RunReturn False])"
    by (auto simp: orderly_stop_def list_all_iff)
  with run_append [OF 1 run_append [OF 2 run_append [OF 3 4]]] t show ?thesis by fastforce
qed

section \<open>An agent to exercise the theorems on\<close>

definition sample_agent_config :: AgentConfig where
  "sample_agent_config = \<lparr>Address = ''localhost:8080'', ReportInterval = 10, PollInterval = 2, AgentKey = ''k'', RateLimit = 2,
     AgentCryptoKey = []\<rparr>"

definition sample_agent :: agent where
  "sample_agent = (case start_agent sample_keylib (disk Map.empty) sample_agent_config of Returned s \<Rightarrow> s)"

definition sample_system :: batch where
  "sample_system = CollectSystemMetricsData ''k'' (Some (1, 1)) None"

definition sample_agent_events :: "agent_event list" where
  "sample_agent_events = [SystemTick (Some (1, 1)) None, CollectorPut System sample_system, TransferTake, TransferPut, SubmitTake]"

definition sample_agent_later :: agent where
  "sample_agent_later = sample_agent\<lparr>submitter := Holds sample_system, produced := [sample_system]\<rparr>"

lemma sample_agent_start: "start_agent sample_keylib (disk Map.empty) sample_agent_config = Returned sample_agent"
  by (simp add: sample_agent_def start_agent_defs sample_agent_config_def Second_def)

lemma sample_agent_valid: "validateConfig sample_agent_config = None" "long_key (sender sample_agent)"
  by (simp_all add: validateConfig_def sample_agent_config_def sample_agent_def start_agent_defs
      Second_def long_key_def NewMetricsSender_def)

lemma sample_agent_run: "run (agent_step sample_lib sample_urllib (\<lambda>c. False)) sample_agent sample_agent_events sample_agent_later"
  unfolding sample_agent_events_def sample_agent_later_def sample_system_def
  using one_batch [OF sample_agent_start] by (simp add: sample_agent_config_def)

lemma sample_agent_later_fields [simp]:
  "apc sample_agent_later = Running" "\<not> run_ctx_done sample_agent_later" "\<not> panicked sample_agent_later"
  "produced sample_agent_later = [sample_system]"
  by (simp_all add: sample_agent_later_def sample_agent_def start_agent_defs sample_agent_config_def Second_def)

section \<open>Properties\<close>

text \<open>
  C3: no batch is lost track of. Whatever the agent with an accepted configuration does, each
  batch its collectors made is in exactly one place, counted with multiplicity: sent (the call
  returned), given up by a goroutine whose context was done, in a worker, in the queue to the
  workers, or still with its collector. Nothing is given up before the collectors are told to
  stop, nothing panics before their channel is closed, and the queue holds at most 302 batches.
\<close>

theorem batches_conserved:
  assumes "start_agent KL fs cfg = Returned s" and "validateConfig cfg = None" and "long_key (sender s)"
    and "run (agent_step L U isc) s es t"
  shows "mset (produced t) = mset (finished t) + mset (dropped t) + mset (busy (workers t)) + mset (pipeline t) + mset (waiting t)
    \<and> (dropped t \<noteq> [] \<longrightarrow> CollectorWait \<le> apc t \<or> run_ctx_done t) \<and> (panicked t \<longrightarrow> TransferWait \<le> apc t)
    \<and> length (pipeline t) \<le> 302"
proof -
  have "agent_inv t" using life.run_keeps [OF assms(4)] start_agent_inv(1) [OF assms(1) _ assms(3)] assms(2)
    by (simp add: validateConfig_None)
  then have inv: "conserved t" "orderly t" "room t" by (simp_all add: agent_inv_def)
  have held: "length (held g) \<le> 1" for g by (cases g) simp_all
  have "length (pipeline t) \<le> 302"
    using inv(3) held [of "submitter t"] held [of "transfer t"] by (simp add: pipeline_def room_def)
  moreover note orderly_stages(5,6) [OF inv(2)]
  ultimately show ?thesis using inv(1) by (simp add: conserved_def)
qed

theorem batches_conserved_witness:
  "mset [sample_system] = mset (finished sample_agent_later) + mset (dropped sample_agent_later)
     + mset (busy (workers sample_agent_later)) + mset (pipeline sample_agent_later) + mset (waiting sample_agent_later)
   \<and> length (pipeline sample_agent_later) \<le> 302"
  using batches_conserved [OF sample_agent_start sample_agent_valid sample_agent_run] by simp

text \<open>
  C14: the three channels and the goroutines between them are one queue. As long as nothing has
  panicked and the context of Run is alive, the batches taken by the workers are, in order, the
  batches put in by the collectors, up to those still on the way.
\<close>

theorem pipeline_is_a_queue:
  assumes "start_agent KL fs cfg = Returned s" and "run (agent_step L U isc) s es t"
    and "\<not> panicked t" and "\<not> run_ctx_done t"
  shows "concat (map puts es) = concat (map takes es) @ pipeline t"
  using pipe.first_in_first_out [OF assms(2)] assms(3,4) start_agent_fields [OF assms(1)]
  by (simp add: queue_broken_def pipeline_def make_chan_def)

theorem pipeline_is_a_queue_witness: "[sample_system] = [] @ pipeline sample_agent_later"
  using pipeline_is_a_queue [OF sample_agent_start sample_agent_run] by (simp add: sample_agent_events_def)

text \<open>
  C6: over the whole life of the agent, with its retries and its concurrent workers, the server
  receives no batch more often than the collectors made it.
\<close>

theorem no_batch_arrives_twice:
  assumes "start_agent KL fs cfg = Returned s" and "validateConfig cfg = None" and "long_key (sender s)"
    and "run (agent_step L U isc) s es t" and "\<And>b. Gzip L b \<noteq> []"
  shows "mset (map fst (deliveries t)) \<subseteq># mset (produced t)"
proof -
  note start = start_agent_inv [OF assms(1) _ assms(3)]
  have rate: "0 < RateLimit cfg" using assms(2) by (simp add: validateConfig_None)
  have "conserved t" using life.run_keeps [OF assms(4)] start(1) [OF rate] by (simp add: agent_inv_def)
  moreover have "delivered_once t"
    using arrivals.run_keeps [OF assms(4)] start(4) [OF rate] assms(5) by (simp add: delivered_once_def)
  ultimately show ?thesis
    unfolding delivered_once_def conserved_def by (metis add.assoc mset_subset_eq_add_left subset_mset.order_trans)
qed

theorem no_batch_arrives_twice_witness: "mset (map fst (deliveries sample_agent_later)) \<subseteq># {#sample_system#}"
  using no_batch_arrives_twice [OF sample_agent_start sample_agent_valid sample_agent_run] by (simp add: sample_lib_def)



text \<open>
  C17: the Stop of the sender does not send what is left. For every configuration with which the
  agent starts, there is a shutdown in which no wait times out, Run returns and a batch made
  by the collectors is still among the tasks, unsent and not given up by anyone; and there is
  one in which the process panics, sending to the closed channel of the pool.
\<close>

theorem stop_can_lose_or_panic:
  assumes "start_agent KL fs cfg = Returned s"
  shows "(\<exists>es t. run (agent_step L U isc) s es t \<and> list_all (\<lambda>e. \<not> timed_out e) es \<and> apc t = Exited
      \<and> finished t = [] \<and> dropped t = [] \<and> buf (tasks t) = produced t
      \<and> produced t = [CollectSystemMetricsData (AgentKey cfg) vm cpus])
    \<and> (\<exists>es t. run (agent_step L U isc) s es t \<and> list_all (\<lambda>e. \<not> timed_out e) es \<and> panicked t)"
  using stop_with_task_queued [OF assms, of L U isc vm cpus] stop_with_batch_held [OF assms, of L U isc] by fastforce

theorem stop_can_lose_or_panic_witness:
  "\<exists>es t. run (agent_step sample_lib sample_urllib (\<lambda>c. False)) sample_agent es t \<and> list_all (\<lambda>e. \<not> timed_out e) es \<and> panicked t"
  using stop_can_lose_or_panic [OF sample_agent_start] by blast

end
