(* ===== verification/StorageManager.thy ===== *)
theory StorageManager
  imports Stores Steps
begin

text \<open>
  \<^verbatim>\<open>internal/server/storage_manager.go\<close>: restoring at the start, the goroutine that saves
  periodically, and the two operations of the shutdown. Start and Shutdown are functions; the
  goroutine, the handlers that update the store meanwhile and the two halves of Stop (signal
  and wait) are steps of a relation.
\<close>

section \<open>State\<close>

record SMConfig =
  sm_StoreInterval :: int
  sm_FileStoragePath :: string
  sm_Restore :: bool

record StorageManager =
  sm_storage :: store
  sm_config :: SMConfig
  sm_cancelled :: bool       \<comment> \<open>the context is done\<close>
  sm_running :: nat          \<comment> \<open>the WaitGroup: goroutines that have not returned\<close>
  sm_stopped :: bool

definition NewStorageManager :: "store \<Rightarrow> SMConfig \<Rightarrow> StorageManager" where
  "NewStorageManager st cfg =
     \<lparr>sm_storage = st, sm_config = cfg, sm_cancelled = False, sm_running = 0, sm_stopped = False\<rparr>"

definition SM_Start :: "golib \<Rightarrow> filesystem \<Rightarrow> StorageManager \<Rightarrow> StorageManager" where
  "SM_Start L fs sm =
     (if sm_stopped sm then sm
      else if IsDatabase (sm_storage sm) then sm
      else (let sm1 = (if sm_Restore (sm_config sm)
                       then sm\<lparr>sm_storage := snd (LoadFromFile L (sm_FileStoragePath (sm_config sm)) fs (sm_storage sm))\<rparr>
                       else sm)
            in if 0 < sm_StoreInterval (sm_config sm1) then sm1\<lparr>sm_running := Suc (sm_running sm1)\<rparr> else sm1))"

text \<open>One turn of the loop of \<^verbatim>\<open>periodicSave\<close> on a tick; an error is only logged.\<close>

definition periodicSave_tick :: "golib \<Rightarrow> StorageManager \<Rightarrow> filesystem \<Rightarrow> filesystem" where
  "periodicSave_tick L sm fs = snd (SaveToFile L (sm_FileStoragePath (sm_config sm)) (sm_storage sm) fs)"

text \<open>Stop up to the wait: it returns at once when it was called before.\<close>

definition SM_Stop_signal :: "StorageManager \<Rightarrow> StorageManager" where
  "SM_Stop_signal sm = (if sm_stopped sm then sm else sm\<lparr>sm_stopped := True, sm_cancelled := True\<rparr>)"

definition SM_Stop_waits :: "StorageManager \<Rightarrow> bool" where
  "SM_Stop_waits sm \<longleftrightarrow> 0 < sm_running sm"

definition close_store :: "store \<Rightarrow> goerror option \<times> store" where
  "close_store st = (case st of InMemory m \<Rightarrow> (None, InMemory m) | InDatabase d \<Rightarrow> map_prod id InDatabase (DB_Close d))"

definition SM_Shutdown :: "golib \<Rightarrow> StorageManager \<Rightarrow> filesystem \<Rightarrow> goerror option \<times> StorageManager \<times> filesystem" where
  "SM_Shutdown L sm fs =
     (let path = sm_FileStoragePath (sm_config sm);
          (err, fs1) = (if \<not> IsDatabase (sm_storage sm) \<and> path \<noteq> [] then SaveToFile L path (sm_storage sm) fs else (None, fs))
      in case err of
           Some e \<Rightarrow> (Some e, sm, fs1)
         | None \<Rightarrow>
            if IsDatabase (sm_storage sm)
            then (case close_store (sm_storage sm) of (e, st) \<Rightarrow> (e, sm\<lparr>sm_storage := st\<rparr>, fs1))
            else (None, sm, fs1))"

section \<open>Restarting\<close>

lemma SM_Start_fields [simp]:
  "sm_config (SM_Start L fs sm) = sm_config sm" "sm_stopped (SM_Start L fs sm) = sm_stopped sm"
  "sm_cancelled (SM_Start L fs sm) = sm_cancelled sm"
  by (simp_all add: SM_Start_def Let_def)

lemma SM_Start_running: "sm_running (SM_Start L fs (NewStorageManager st cfg)) \<le> 1"
  by (simp add: SM_Start_def NewStorageManager_def Let_def)

lemma memory_kinds [simp]: "Mem_IsDatabase m = False" "DB_IsDatabase d = True"
  by (simp_all add: Mem_IsDatabase_def DB_IsDatabase_def)

text \<open>What a successful Shutdown of a memory store wrote, Start reads back.\<close>

lemma shutdown_then_start:
  assumes "sm_storage sm = InMemory m" and "path = sm_FileStoragePath (sm_config sm)" and "path \<noteq> []"
    and "SM_Shutdown L sm fs = (None, sm', fs')" and "dump_codec L" and "open_error fs path = None"
    and "sm_FileStoragePath cfg = path" and "sm_Restore cfg"
  shows "sm_storage (SM_Start L fs' (NewStorageManager (InMemory m') cfg)) = InMemory m"
proof -
  have save: "Mem_SaveToFile L path m fs = (None, fs')"
    using assms(1-4) by (cases "Mem_SaveToFile L path m fs"; cases "fst (Mem_SaveToFile L path m fs)")
      (auto simp: SM_Shutdown_def)
  then have "Mem_LoadFromFile L path fs' m' = (None, m)"
    using Mem_save_load [OF assms(5), of path m fs m'] assms(6) by simp
  then show ?thesis using assms(7,8)
    by (simp add: SM_Start_def NewStorageManager_def Let_def)
qed

text \<open>Loading the same file a second time changes nothing.\<close>

lemma load_idempotent:
  "LoadFromFile L f fs (snd (LoadFromFile L f fs st)) = LoadFromFile L f fs st"
  by (cases st) (auto simp: Mem_LoadFromFile_def split: sum.split option.split)

end
