(* ===== verification/Middleware.thy ===== *)
theory Middleware
  imports Http Crypto Base64
begin

text \<open>
  \<^verbatim>\<open>internal/middleware/decrypt.go\<close>, \<^verbatim>\<open>internal/middleware/gzip.go\<close> and \<^verbatim>\<open>internal/logger/logger.go\<close>: the
  functions that wrap an HTTP handler. A handler is a function of the request, the response
  writer and the state behind it; each wrapper is generic in that state.
\<close>

section \<open>Handlers and what they answer\<close>

type_synonym 's http_handler = "request \<Rightarrow> writer \<Rightarrow> 's \<Rightarrow> writer \<times> 's"

text \<open>
  The server recovers a panic of a handler and drops the connection, so the client gets no
  answer: a writer whose connection is broken and that has sent nothing more.
\<close>

definition drop_connection :: "writer \<Rightarrow> writer" where
  "drop_connection w = w\<lparr>broken := True\<rparr>"

section \<open>Decrypting requests\<close>

text \<open>The three error texts, in UTF-8.\<close>

definition read_failed_text :: string where
  "read_failed_text = map char_of ([
     0xD0, 0x9E, 0xD1, 0x88, 0xD0, 0xB8, 0xD0, 0xB1, 0xD0, 0xBA, 0xD0, 0xB0, 0x20, 0xD1, 0x87, 0xD1, 0x82,
     0xD0, 0xB5, 0xD0, 0xBD, 0xD0, 0xB8, 0xD1, 0x8F, 0x20, 0xD1, 0x82, 0xD0, 0xB5, 0xD0, 0xBB, 0xD0, 0xB0,
     0x20, 0xD0, 0xB7, 0xD0, 0xB0, 0xD0, 0xBF, 0xD1, 0x80, 0xD0, 0xBE, 0xD1, 0x81, 0xD0, 0xB0] :: nat list)"

definition base64_failed_text :: string where
  "base64_failed_text = map char_of ([
     0xD0, 0x9E, 0xD1, 0x88, 0xD0, 0xB8, 0xD0, 0xB1, 0xD0, 0xBA, 0xD0, 0xB0, 0x20, 0xD0, 0xB4, 0xD0, 0xB5,
     0xD0, 0xBA, 0xD0, 0xBE, 0xD0, 0xB4, 0xD0, 0xB8, 0xD1, 0x80, 0xD0, 0xBE, 0xD0, 0xB2, 0xD0, 0xB0, 0xD0,
     0xBD, 0xD0, 0xB8, 0xD1, 0x8F, 0x20, 0x42, 0x61, 0x73, 0x65, 0x36, 0x34] :: nat list)"

definition decrypt_failed_text :: string where
  "decrypt_failed_text = map char_of ([
     0xD0, 0x9E, 0xD1, 0x88, 0xD0, 0xB8, 0xD0, 0xB1, 0xD0, 0xBA, 0xD0, 0xB0, 0x20, 0xD0, 0xB4, 0xD0, 0xB5,
     0xD1, 0x88, 0xD0, 0xB8, 0xD1, 0x84, 0xD1, 0x80, 0xD0, 0xBE, 0xD0, 0xB2, 0xD0, 0xB0, 0xD0, 0xBD, 0xD0,
     0xB8, 0xD1, 0x8F, 0x20, 0xD0, 0xB4, 0xD0, 0xB0, 0xD0, 0xBD, 0xD0, 0xBD, 0xD1, 0x8B, 0xD1, 0x85] :: nat list)"

definition encrypted_token :: string where "encrypted_token = ''encrypted''"
definition gzip_token :: string where "gzip_token = ''gzip''"

definition DecryptMiddleware :: "rsa_private option \<Rightarrow> 's http_handler \<Rightarrow> 's http_handler" where
  "DecryptMiddleware privateKey nxt r w s = (case privateKey of
     None \<Rightarrow> nxt r w s
   | Some K \<Rightarrow>
      if Header_Get (ReqHeader r) Content_Encoding \<noteq> encrypted_token then nxt r w s
      else (case ReadAll (Body r) of
         Inl e \<Rightarrow> (http_error read_failed_text 400 w, s)
       | Inr encryptedBody \<Rightarrow> (case base64_decode encryptedBody of
           None \<Rightarrow> (http_error base64_failed_text 400 w, s)
         | Some encryptedData \<Rightarrow> (case DecryptLargeData encryptedData K of
             Some (Returned (Inr decryptedData)) \<Rightarrow>
               nxt (r\<lparr>Body := byte_stream decryptedData, ContentLength := int (length decryptedData),
                      ReqHeader := Header_Set Content_Encoding gzip_token (ReqHeader r)\<rparr>) w s
           | Some (Returned (Inl e)) \<Rightarrow> (http_error decrypt_failed_text 400 w, s)
           | _ \<Rightarrow> (drop_connection w, s)))))"

section \<open>Compression\<close>

text \<open>
  The gzip writer hides the body the handler writes and sends its compressed form; the deferred
  Close emits what is left, and the status 200 if the handler sent none.
\<close>

definition gzip_writer :: "writer \<Rightarrow> writer" where
  "gzip_writer w = (set_header Content_Encoding gzip_token w)\<lparr>rbody := []\<rparr>"

definition gzip_close :: "golib \<Rightarrow> writer \<Rightarrow> writer \<Rightarrow> writer" where
  "gzip_close L w gw = Write (Gzip L (rbody gw)) (gw\<lparr>rbody := rbody w\<rparr>)"

definition unzip_request :: "golib \<Rightarrow> request \<Rightarrow> request option" where
  "unzip_request L r =
     (if contains gzip_token (Header_Get (ReqHeader r) Content_Encoding)
      then map_option (\<lambda>b. r\<lparr>Body := b\<rparr>) (Gunzip L (Body r)) else Some r)"

definition GzipMiddleware :: "golib \<Rightarrow> 's http_handler \<Rightarrow> 's http_handler" where
  "GzipMiddleware L nxt r w s = (case unzip_request L r of
     None \<Rightarrow> (WriteHeader 400 w, s)
   | Some rz \<Rightarrow>
      if contains gzip_token (Header_Get (ReqHeader r) Accept_Encoding)
      then (case nxt rz (gzip_writer w) s of (gw, sz) \<Rightarrow> (gzip_close L w gw, sz))
      else nxt rz w s)"

section \<open>Logging\<close>

text \<open>
  The logging writer passes everything on; it keeps the last code given to WriteHeader, also
  one that came too late to be sent, and counts the bytes of the body.
\<close>

record responseData =
  data_status :: nat
  data_size :: nat

definition WithLogging :: "'s http_handler \<Rightarrow> request \<Rightarrow> writer \<Rightarrow> 's \<Rightarrow> responseData \<times> writer \<times> 's" where
  "WithLogging h r w s = (case h r w s of (w', s') \<Rightarrow>
     (\<lparr>data_status = last (200 # drop (length (header_calls w)) (header_calls w')),
       data_size = length (rbody w') - length (rbody w)\<rparr>, w', s'))"

text \<open>
  The writer itself, call by call: what it has counted when a handler is done is what WithLogging
  reads off the calls.
\<close>

record loggingResponseWriter =
  lw_inner :: writer
  lw_data :: responseData

definition logging_writer :: "writer \<Rightarrow> loggingResponseWriter" where
  "logging_writer w = \<lparr>lw_inner = w, lw_data = \<lparr>data_status = 200, data_size = 0\<rparr>\<rparr>"

definition lw_Write :: "bytes \<Rightarrow> loggingResponseWriter \<Rightarrow> loggingResponseWriter" where
  "lw_Write b lw = (let written = (if broken (lw_inner lw) then 0 else length b) in
     lw\<lparr>lw_inner := Write b (lw_inner lw), lw_data := (lw_data lw)\<lparr>data_size := data_size (lw_data lw) + written\<rparr>\<rparr>)"

definition lw_WriteHeader :: "nat \<Rightarrow> loggingResponseWriter \<Rightarrow> loggingResponseWriter" where
  "lw_WriteHeader code lw =
     lw\<lparr>lw_inner := WriteHeader code (lw_inner lw), lw_data := (lw_data lw)\<lparr>data_status := code\<rparr>\<rparr>"

datatype writer_call = SetHeaderCall string string | WriteCall bytes | WriteHeaderCall nat

fun plain_call :: "writer_call \<Rightarrow> writer \<Rightarrow> writer" where
  "plain_call (SetHeaderCall k v) w = set_header k v w"
| "plain_call (WriteCall b) w = Write b w"
| "plain_call (WriteHeaderCall c) w = WriteHeader c w"

fun logging_call :: "writer_call \<Rightarrow> loggingResponseWriter \<Rightarrow> loggingResponseWriter" where
  "logging_call (SetHeaderCall k v) lw = lw\<lparr>lw_inner := set_header k v (lw_inner lw)\<rparr>"
| "logging_call (WriteCall b) lw = lw_Write b lw"
| "logging_call (WriteHeaderCall c) lw = lw_WriteHeader c lw"

lemma plain_calls_grow:
  "length (rbody w) \<le> length (rbody (fold plain_call cs w))" "length (header_calls w) \<le> length (header_calls (fold plain_call cs w))"
proof -
  have one: "length (rbody w) \<le> length (rbody (plain_call c w)) \<and> length (header_calls w) \<le> length (header_calls (plain_call c w))" for c w
    by (cases c) simp_all
  have "length (rbody w) \<le> length (rbody (fold plain_call cs w)) \<and> length (header_calls w) \<le> length (header_calls (fold plain_call cs w))"
    by (induction cs arbitrary: w) (use one order_trans in \<open>simp; blast\<close>)+
  then show "length (rbody w) \<le> length (rbody (fold plain_call cs w))" "length (header_calls w) \<le> length (header_calls (fold plain_call cs w))"
    by blast+
qed

lemma logging_calls:
  "fold logging_call cs (logging_writer w) = \<lparr>lw_inner = fold plain_call cs w,
     lw_data = \<lparr>data_status = last (200 # drop (length (header_calls w)) (header_calls (fold plain_call cs w))),
       data_size = length (rbody (fold plain_call cs w)) - length (rbody w)\<rparr>\<rparr>"
proof (induction cs rule: rev_induct)
  case (snoc c cs)
  then show ?case using plain_calls_grow [of w cs]
    by (cases c) (simp_all add: lw_Write_def lw_WriteHeader_def Let_def)
qed (simp add: logging_writer_def)

lemma WithLogging_by_calls:
  assumes "h r w s = (fold plain_call cs w, s')"
  shows "WithLogging h r w s = (lw_data (fold logging_call cs (logging_writer w)), fold plain_call cs w, s')"
  by (simp add: WithLogging_def assms logging_calls)

section \<open>Facts\<close>

lemma http_error_simps [simp]:
  "status (http_error t c w) = Some (case status w of None \<Rightarrow> c | Some d \<Rightarrow> d)"
  "status_of (http_error t c w) = (case status w of None \<Rightarrow> c | Some d \<Rightarrow> d)"
  unfolding http_error_def by (cases "status w"; simp only: writer_simps status_of_simps option.case)+

lemma gzip_writer_simps [simp]:
  "status (gzip_writer w) = status w" "rbody (gzip_writer w) = []" "broken (gzip_writer w) = broken w"
  "header_calls (gzip_writer w) = header_calls w" "fresh w \<Longrightarrow> fresh (gzip_writer w)"
  by (simp_all add: gzip_writer_def fresh_def del: fresh_simps)

lemma gzip_close_simps [simp]:
  "status_of (gzip_close L w gw) = status_of gw"
  "rbody (gzip_close L w gw) = (if broken gw then rbody w else rbody w @ Gzip L (rbody gw))"
  by (simp_all add: gzip_close_def status_of_def)

lemma decrypt_passes:
  assumes "privateKey = None \<or> Header_Get (ReqHeader r) Content_Encoding \<noteq> encrypted_token"
  shows "DecryptMiddleware privateKey nxt r w s = nxt r w s"
  using assms by (auto simp: DecryptMiddleware_def split: option.splits)

lemma decrypt_blocks_returns:
  assumes "0 < k" and "length data mod k = 0" and "i mod k = 0"
  shows "\<exists>r. decrypt_blocks dec (int k) data (int i) acc = Some (Returned r)"
  using assms(3)
proof (induction "length data - i" arbitrary: i acc rule: less_induct)
  case less
  show ?case
  proof (cases "i < length data")
    case True
    have "k dvd length data - i" using assms(2) less.prems by (simp add: dvd_diff_nat mod_eq_0_iff_dvd)
    then have le: "i + k \<le> length data" using True by (auto dest!: dvd_imp_le)
    show ?thesis
    proof (cases "dec (slice (int i) (int i + int k) data)")
      case (Inl e)
      then show ?thesis using True le by (subst decrypt_blocks.simps) simp
    next
      case (Inr b)
      have "length data - (i + k) < length data - i" using True assms(1) by linarith
      from less.hyps [OF this, of "acc @ b"] show ?thesis
        using True le Inr less.prems by (subst decrypt_blocks.simps) simp
    qed
  next
    case False
    then show ?thesis by (subst decrypt_blocks.simps) auto
  qed
qed

lemma DecryptLargeData_returns:
  assumes "0 < Size (pub_N K)"
  shows "\<exists>r. DecryptLargeData ct K = Some (Returned r)"
  using assms decrypt_blocks_returns [of "Size (pub_N K)" ct 0 "\<lambda>b. DecryptData b K" "[]"]
  by (auto simp: DecryptLargeData_def Let_def)

text \<open>A body that does not decrypt is refused before any handler sees the request.\<close>

lemma decrypt_refuses:
  assumes "Header_Get (ReqHeader r) Content_Encoding = encrypted_token" and "0 < Size (pub_N K)" and "fresh w"
    and "\<And>b ct d. Body r = byte_stream b \<Longrightarrow> base64_decode b = Some ct \<Longrightarrow> DecryptLargeData ct K \<noteq> Some (Returned (Inr d))"
  shows "\<exists>t. DecryptMiddleware (Some K) nxt r w s = (http_error t 400 w, s)"
proof (cases "ReadAll (Body r)")
  case (Inl e)
  then show ?thesis using assms(1) by (auto simp: DecryptMiddleware_def)
next
  case (Inr b)
  then have b: "Body r = byte_stream b" by simp
  show ?thesis
  proof (cases "base64_decode b")
    case (Some ct)
    obtain x where "DecryptLargeData ct K = Some (Returned x)" using DecryptLargeData_returns [OF assms(2)] by blast
    then show ?thesis using assms(1,4) b Some by (cases x) (auto simp: DecryptMiddleware_def)
  qed (use assms(1) b in \<open>auto simp: DecryptMiddleware_def\<close>)
qed

lemma decrypt_accepts:
  assumes "Header_Get (ReqHeader r) Content_Encoding = encrypted_token" and "Body r = byte_stream (base64_encode ct)"
    and "DecryptLargeData ct K = Some (Returned (Inr d))"
  shows "DecryptMiddleware (Some K) nxt r w s
    = nxt (r\<lparr>Body := byte_stream d, ContentLength := int (length d),
             ReqHeader := Header_Set Content_Encoding gzip_token (ReqHeader r)\<rparr>) w s"
  using assms by (simp add: DecryptMiddleware_def base64_roundtrip)

end
