(* ===== verification/Router.thy ===== *)
theory Router
  imports Handlers Middleware
begin

text \<open>
  \<^verbatim>\<open>internal/server/router.go\<close>: the route table, the chain of middlewares and the wrapped logger. How
  chi matches a method and a path against the registered patterns is a parameter; it only
  chooses one of the routes and the values of the pattern's names.
\<close>

section \<open>The mux\<close>

datatype chi_match = Matched nat "string \<Rightarrow> string" | NotFound | MethodNotAllowed

record chimux =
  chi_find :: "(string \<times> string) list \<Rightarrow> string \<Rightarrow> string \<Rightarrow> chi_match"
  chi_not_allowed :: "writer \<Rightarrow> writer"      \<comment> \<open>chi's answer to a method no route of the path has\<close>

definition routes :: "golib \<Rightarrow> map_order \<Rightarrow> (string \<times> string \<times> handler) list" where
  "routes L ord =
     [(''POST'', ''/update/{type}/{name}/{value}'', UpdateHandler L),
      (''GET'', ''/value/{type}/{name}'', ValueHandler L),
      (''GET'', ''/'', IndexHandler L),
      (''GET'', ''/ping'', PingHandler),
      (''POST'', ''/update/'', UpdateJSONHandler L),
      (''POST'', ''/value/'', ValueJSONHandler L),
      (''POST'', ''/updates/'', UpdatesHandler L ord)]"

definition patterns :: "golib \<Rightarrow> map_order \<Rightarrow> (string \<times> string) list" where
  "patterns L ord = map (\<lambda>(m, p, f). (m, p)) (routes L ord)"

text \<open>What chi promises: a match is one of the registered routes, and a wrong method is answered with 405.\<close>

definition chi_law :: "chimux \<Rightarrow> bool" where
  "chi_law chi \<longleftrightarrow> (\<forall>ps m p i vs. chi_find chi ps m p = Matched i vs \<longrightarrow> i < length ps)
     \<and> (\<forall>w. fresh w \<longrightarrow> status_of (chi_not_allowed chi w) = 405 \<and> header_calls (chi_not_allowed chi w) = [405])"

definition mux :: "golib \<Rightarrow> map_order \<Rightarrow> chimux \<Rightarrow> handler" where
  "mux L ord chi r w h = (case chi_find chi (patterns L ord) (Method r) (Path r) of
     Matched i vs \<Rightarrow> snd (snd (routes L ord ! i)) (r\<lparr>URLParam := vs\<rparr>) w h
   | NotFound \<Rightarrow> (http_error ''404 page not found'' 404 w, h)
   | MethodNotAllowed \<Rightarrow> (chi_not_allowed chi w, h))"

section \<open>The router\<close>

record Router =
  router_handlers :: Handlers
  router_key :: "rsa_private option"

text \<open>A key file that cannot be loaded is logged, and the router works without a key.\<close>

definition NewRouter :: "keylib \<Rightarrow> filesystem \<Rightarrow> store \<Rightarrow> string \<Rightarrow> string \<Rightarrow> Router" where
  "NewRouter KL fs st k cryptoKeyPath =
     \<lparr>router_handlers = NewHandlers st k,
      router_key = (if cryptoKeyPath = [] then None
        else (case LoadPrivateKey KL fs cryptoKeyPath of Inl e \<Rightarrow> None | Inr K \<Rightarrow> Some K))\<rparr>"

definition ServeHTTP :: "golib \<Rightarrow> map_order \<Rightarrow> chimux \<Rightarrow> rsa_private option \<Rightarrow> handler" where
  "ServeHTTP L ord chi K = DecryptMiddleware K (GzipMiddleware L (mux L ord chi))"

definition Router_WithLogging :: "golib \<Rightarrow> map_order \<Rightarrow> chimux \<Rightarrow> Router \<Rightarrow> request \<Rightarrow> writer \<Rightarrow> responseData \<times> writer \<times> Handlers" where
  "Router_WithLogging L ord chi R r w = WithLogging (ServeHTTP L ord chi (router_key R)) r w (router_handlers R)"

section \<open>What passes through the chain\<close>

text \<open>
  A relation between the logged status, the sent status and the state before and after that
  every handler establishes is established by the chain of middlewares around them.
\<close>

definition logged :: "writer \<Rightarrow> nat" where
  "logged w = last (200 # header_calls w)"

lemma logged_simps [simp]:
  "logged (WriteHeader c w) = c" "logged (Write b w) = logged w" "logged (set_header k v w) = logged w"
  "logged (http_error t c w) = c" "logged (gzip_close L w gw) = logged gw" "logged (drop_connection w) = logged w"
  "fresh w \<Longrightarrow> logged w = 200"
  by (simp_all add: logged_def http_error_def gzip_close_def drop_connection_def)

lemma drop_connection_status [simp]: "status_of (drop_connection w) = status_of w"
  by (simp add: drop_connection_def status_of_def)

lemma fresh_status_of [simp]: "fresh w \<Longrightarrow> status_of w = 200"
  by (simp add: status_of_def)

definition answers :: "(nat \<Rightarrow> nat \<Rightarrow> 's \<Rightarrow> 's \<Rightarrow> bool) \<Rightarrow> 's http_handler \<Rightarrow> bool" where
  "answers P f \<longleftrightarrow> (\<forall>r w s. fresh w \<longrightarrow> P (logged (fst (f r w s))) (status_of (fst (f r w s))) s (snd (f r w s)))"

lemma answersD: "answers P f \<Longrightarrow> fresh w \<Longrightarrow> f r w s = (w', s') \<Longrightarrow> P (logged w') (status_of w') s s'"
  unfolding answers_def by (metis fst_conv snd_conv)

lemma answers_gzip:
  assumes "answers P f" and "\<And>c s. P c c s s"
  shows "answers P (GzipMiddleware L f)"
  unfolding answers_def
proof (intro allI impI)
  fix r w s assume w: "fresh w"
  then have gw: "fresh (gzip_writer w)" by simp
  show "P (logged (fst (GzipMiddleware L f r w s))) (status_of (fst (GzipMiddleware L f r w s))) s (snd (GzipMiddleware L f r w s))"
  proof (cases "unzip_request L r")
    case None
    then show ?thesis using assms(2) w by (simp add: GzipMiddleware_def)
  next
    case (Some rz)
    obtain gw' sz where eq: "f rz (gzip_writer w) s = (gw', sz)" by force
    obtain w' s' where eq': "f rz w s = (w', s')" by force
    show ?thesis using Some eq eq' answersD [OF assms(1) gw eq] answersD [OF assms(1) w eq']
      by (simp add: GzipMiddleware_def)
  qed
qed

lemma answers_decrypt:
  assumes "answers P f" and "\<And>c s. P c c s s"
  shows "answers P (DecryptMiddleware K f)"
  using assms unfolding answers_def DecryptMiddleware_def
  by (auto split: option.splits sum.splits outcome.splits)

lemma answers_mux:
  assumes "chi_law chi" and "\<And>f. f \<in> set (handlers L ord) \<Longrightarrow> answers P f" and "\<And>c s. P c c s s"
  shows "answers P (mux L ord chi)"
  unfolding answers_def
proof (intro allI impI)
  fix r w h assume w: "fresh w"
  show "P (logged (fst (mux L ord chi r w h))) (status_of (fst (mux L ord chi r w h))) h (snd (mux L ord chi r w h))"
  proof (cases "chi_find chi (patterns L ord) (Method r) (Path r)")
    case (Matched i vs)
    then have "i < length (routes L ord)" using assms(1) unfolding chi_law_def patterns_def by fastforce
    then have "snd (snd (routes L ord ! i)) \<in> snd ` snd ` set (routes L ord)" by (intro imageI nth_mem)
    also have "snd ` snd ` set (routes L ord) = set (handlers L ord)"
      by (simp add: routes_def handlers_def insert_commute)
    finally have "answers P (snd (snd (routes L ord ! i)))" by (rule assms(2))
    then show ?thesis using Matched w by (simp add: mux_def answers_def)
  next
    case NotFound
    then show ?thesis using assms(3) w by (simp add: mux_def)
  next
    case MethodNotAllowed
    have "status_of (chi_not_allowed chi w) = 405" "logged (chi_not_allowed chi w) = 405"
      using assms(1) w by (simp_all add: chi_law_def logged_def)
    then show ?thesis using MethodNotAllowed assms(3) by (simp add: mux_def)
  qed
qed

lemma answers_router:
  assumes "chi_law chi" and "\<And>f. f \<in> set (handlers L ord) \<Longrightarrow> answers P f" and "\<And>c s. P c c s s"
  shows "answers P (ServeHTTP L ord chi K)"
  unfolding ServeHTTP_def using assms by (intro answers_decrypt answers_gzip answers_mux) blast+

section \<open>What the handlers log\<close>

text \<open>
  Every handler calls WriteHeader at most once before it writes, with one exception: a reply
  that cannot be encoded calls it again with 500 after 200 was sent.
\<close>

definition log_ok :: "nat \<Rightarrow> nat \<Rightarrow> bool" where
  "log_ok l c \<longleftrightarrow> l = c \<or> l = 500 \<and> c = 200"

lemma reply_json_logged [simp]:
  "logged (reply_json L h m w) = (case MarshalMetric L (addHashToMetrics h m) of None \<Rightarrow> 500 | Some b \<Rightarrow> 200)"
  by (simp add: reply_json_def Let_def split: option.splits)

lemma handlers_log:
  assumes "f \<in> set (handlers L ord)"
  shows "answers (\<lambda>l c s s'. log_ok l c) f"
proof -
  have "log_ok (logged (fst (f r w h))) (status_of (fst (f r w h)))" if w: "fresh w" for r w h
  proof -
    consider "f = UpdateHandler L" | "f = ValueHandler L" | "f = IndexHandler L" | "f = PingHandler"
      | "f = UpdateJSONHandler L" | "f = ValueJSONHandler L" | "f = UpdatesHandler L ord"
      using assms by (auto simp: handlers_def)
    then show ?thesis
    proof cases
      case 1
      then show ?thesis using w by (auto simp: UpdateHandler_def log_ok_def Let_def split: option.splits)
    next
      case 2
      then show ?thesis using w by (auto simp: ValueHandler_def log_ok_def Let_def split: prod.splits sum.splits)
    next
      case 3
      then show ?thesis using w by (auto simp: IndexHandler_def log_ok_def split: prod.splits)
    next
      case 4
      then show ?thesis using w by (auto simp: PingHandler_def log_ok_def split: prod.splits option.splits)
    next
      case 5
      then show ?thesis using w
        by (auto simp: UpdateJSONHandler_def log_ok_def Let_def split: prod.splits option.splits sum.splits)
    next
      case 6
      then show ?thesis using w
        by (auto simp: ValueJSONHandler_def log_ok_def Let_def split: prod.splits option.splits sum.splits)
    next
      case 7
      then show ?thesis using w by (auto simp: UpdatesHandler_def log_ok_def Let_def split: prod.splits option.splits)
    qed
  qed
  then show ?thesis by (simp add: answers_def)
qed

section \<open>Handlers and the compressing writer\<close>

text \<open>
  What a handler does depends on the writer only through its status, body and connection, and
  it never looks at the header that asks for compression.
\<close>

definition core :: "writer \<Rightarrow> nat option \<times> bytes \<times> bool" where
  "core w = (status w, rbody w, broken w)"

lemma core_eqD: "core v = core w \<Longrightarrow> status v = status w \<and> rbody v = rbody w \<and> broken v = broken w \<and> status_of v = status_of w"
  by (simp add: core_def status_of_def)

definition core_header :: "nat \<Rightarrow> nat option \<times> bytes \<times> bool \<Rightarrow> nat option \<times> bytes \<times> bool" where
  "core_header c = (\<lambda>(s, b, x). (Some (case s of None \<Rightarrow> c | Some d \<Rightarrow> d), b, x))"

definition core_body :: "bytes \<Rightarrow> nat option \<times> bytes \<times> bool \<Rightarrow> nat option \<times> bytes \<times> bool" where
  "core_body t = (\<lambda>(s, b, x). (Some (case s of None \<Rightarrow> 200 | Some d \<Rightarrow> d), if x then b else b @ t, x))"

lemma core_ops:
  "core (WriteHeader c w) = core_header c (core w)" "core (Write b w) = core_body b (core w)"
  "core (set_header k x w) = core w"
  by (simp_all add: core_def core_header_def core_body_def)

lemma reply_json_broken [simp]: "broken (reply_json L h m w) = broken w"
  by (simp add: reply_json_def Let_def split: option.split)

lemma core_reply_json:
  "core (reply_json L h m w) = (case MarshalMetric L (addHashToMetrics h m) of
     None \<Rightarrow> core_header 500 (core_header 200 (core w)) | Some b \<Rightarrow> core_body b (core_header 200 (core w)))"
  by (simp add: reply_json_def Let_def core_ops split: option.split)

text \<open>Two runs that differ in the writer's headers and in the two headers about compression.\<close>

definition alike :: "handler \<Rightarrow> bool" where
  "alike f \<longleftrightarrow> (\<forall>r v w h. core v = core w \<longrightarrow>
     core (fst (f r v h)) = core (fst (f r w h)) \<and> snd (f r v h) = snd (f r w h) \<and> broken (fst (f r w h)) = broken w)"

lemma UpdatesHandler_result:
  "\<exists>c h'. \<forall>w. UpdatesHandler L ord r w h = (WriteHeader c (set_header Content_Type application_json w), h')"
proof (cases "Header_Get (ReqHeader r) Content_Type = application_json \<and> DecodeBatch L (Body r) \<noteq> None")
  case True
  then obtain ms where ms: "DecodeBatch L (Body r) = Some ms" by blast
  obtain e st where u: "UpdateBatch (map snd (ord (group_metrics ms))) (storage h) = (e, st)" by force
  show ?thesis
  proof (cases "ms = [] \<or> key h \<noteq> [] \<and> \<not> list_all (verifyMetricHash h) ms")
    case True
    then show ?thesis using ms by (intro exI [of _ 400] exI [of _ h]) (auto simp: UpdatesHandler_def Let_def)
  next
    case no: False
    then show ?thesis using True ms u
      by (intro exI [of _ "case e of None \<Rightarrow> 200 | Some _ \<Rightarrow> 500"] exI [of _ "h\<lparr>storage := st\<rparr>"])
        (cases e; auto simp: UpdatesHandler_def Let_def)
  qed
next
  case False
  then show ?thesis by (intro exI [of _ 400] exI [of _ h]) (auto simp: UpdatesHandler_def Let_def)
qed

lemma handlers_alike:
  assumes "f \<in> set (handlers L ord)"
  shows "alike f"
proof -
  have "core (fst (f r v h)) = core (fst (f r w h)) \<and> snd (f r v h) = snd (f r w h) \<and> broken (fst (f r w h)) = broken w" if w: "core v = core w" for r v w h
  proof -
    note ops = core_ops core_reply_json
    consider "f = UpdateHandler L" | "f = ValueHandler L" | "f = IndexHandler L" | "f = PingHandler"
      | "f = UpdateJSONHandler L" | "f = ValueJSONHandler L" | "f = UpdatesHandler L ord"
      using assms by (auto simp: handlers_def)
    then show ?thesis
    proof cases
      case 1
      then show ?thesis using w by (auto simp: UpdateHandler_def ops Let_def split: option.splits)
    next
      case 2
      then show ?thesis using w by (auto simp: ValueHandler_def ops Let_def split: prod.splits sum.splits)
    next
      case 3
      then show ?thesis using w by (auto simp: IndexHandler_def ops split: prod.splits)
    next
      case 4
      then show ?thesis using w by (auto simp: PingHandler_def ops split: prod.splits option.splits)
    next
      case 5
      then show ?thesis using w
        by (auto simp: UpdateJSONHandler_def ops Let_def split: prod.splits option.splits sum.splits)
    next
      case 6
      then show ?thesis using w
        by (auto simp: ValueJSONHandler_def ops Let_def split: prod.splits option.splits sum.splits)
    next
      case 7
      obtain c h' where "\<And>w. UpdatesHandler L ord r w h = (WriteHeader c (set_header Content_Type application_json w), h')"
        using UpdatesHandler_result [of L ord r h] by (elim exE) (rule that, erule spec)
      then show ?thesis unfolding 7 by (simp add: core_ops w)
    qed
  qed
  then show ?thesis unfolding alike_def by blast
qed

section \<open>A mux to exercise the theorems on\<close>

definition sample_chi :: chimux where
  "sample_chi = \<lparr>
     chi_find = (\<lambda>ps m p. if (m, p) \<in> set ps then Matched (length (takeWhile (\<lambda>x. x \<noteq> (m, p)) ps)) (\<lambda>_. []) else NotFound),
     chi_not_allowed = WriteHeader 405\<rparr>"

lemma takeWhile_index: "x \<in> set xs \<Longrightarrow> length (takeWhile (\<lambda>y. y \<noteq> x) xs) < length xs"
  by (induction xs) auto

lemma sample_chi_law: "chi_law sample_chi"
  by (auto simp: chi_law_def sample_chi_def takeWhile_index split: if_splits)

definition post :: "string \<Rightarrow> (string \<times> string) list \<Rightarrow> bytes \<Rightarrow> request" where
  "post p hs b = \<lparr>Method = ''POST'', Path = p, URLParam = (\<lambda>_. []),
     ReqHeader = foldl (\<lambda>h (k, v). Header_Set k v h) Map.empty hs, Body = byte_stream b, ContentLength = int (length b)\<rparr>"

lemma post_simps [simp]:
  "Method (post p hs b) = ''POST''" "Path (post p hs b) = p" "Body (post p hs b) = byte_stream b"
  "ReqHeader (post p hs b) = foldl (\<lambda>h (k, v). Header_Set k v h) Map.empty hs"
  by (simp_all add: post_def)

lemma sample_chi_updates: "chi_find sample_chi (patterns L ord) ''POST'' ''/updates/'' = Matched 6 (\<lambda>_. [])"
  by (simp add: sample_chi_def patterns_def routes_def)

section \<open>Properties\<close>

text \<open>
  C15: through the whole server, an answer in the range 400 to 499 means that no metric was
  changed: whatever the request, its encryption and compression, the route, the store and the
  behaviour of the database.
\<close>

theorem router_client_error_keeps:
  assumes "chi_law chi" and "fresh w" and "client_error (status_of (fst (ServeHTTP L ord chi K r w h)))"
  shows "store_abs (storage (snd (ServeHTTP L ord chi K r w h))) = store_abs (storage h)"
proof -
  have "answers (\<lambda>l c s s'. client_error c \<longrightarrow> store_abs (storage s') = store_abs (storage s)) (ServeHTTP L ord chi K)"
    using assms(1) handler_client_error_keeps by (intro answers_router) (auto simp: answers_def)
  then show ?thesis using assms(2,3) by (simp add: answers_def)
qed

theorem router_client_error_keeps_witness:
  "storage (snd (ServeHTTP sample_lib id sample_chi None (post ''/nothing'' [] []) new_writer (NewHandlers (InMemory NewMemStorage) [])))
    = InMemory NewMemStorage"
proof -
  have "client_error (status_of (fst (ServeHTTP sample_lib id sample_chi None (post ''/nothing'' [] []) new_writer
      (NewHandlers (InMemory NewMemStorage) []))))"
    by (simp add: ServeHTTP_def DecryptMiddleware_def GzipMiddleware_def unzip_request_def mux_def sample_chi_def
        patterns_def routes_def client_error_def gzip_token_def)
  from router_client_error_keeps [OF sample_chi_law fresh_new this]
  show ?thesis
    by (simp add: ServeHTTP_def DecryptMiddleware_def GzipMiddleware_def unzip_request_def mux_def sample_chi_def
        patterns_def routes_def gzip_token_def NewHandlers_def)
qed

text \<open>
  C35: with a private key, a request marked as encrypted whose body cannot be read, is not
  base64, or does not decrypt, is answered 400 and reaches no handler: nothing is changed.
\<close>

theorem undecryptable_request_refused:
  assumes "Header_Get (ReqHeader r) Content_Encoding = encrypted_token" and "0 < Size (pub_N K)" and "fresh w"
    and "\<nexists>b ct d. Body r = byte_stream b \<and> base64_decode b = Some ct \<and> DecryptLargeData ct K = Some (Returned (Inr d))"
  shows "status_of (fst (ServeHTTP L ord chi (Some K) r w h)) = 400 \<and> snd (ServeHTTP L ord chi (Some K) r w h) = h"
proof -
  obtain t where "ServeHTTP L ord chi (Some K) r w h = (http_error t 400 w, h)"
    unfolding ServeHTTP_def using decrypt_refuses [OF assms(1-3)] assms(4) by metis
  then show ?thesis using assms(3) by simp
qed

theorem undecryptable_request_refused_witness:
  "status_of (fst (ServeHTTP sample_lib id sample_chi (Some sample_key)
      (post ''/updates/'' [(Content_Encoding, encrypted_token)] ''not base64!'') new_writer
      (NewHandlers (InMemory NewMemStorage) []))) = 400"
proof -
  have "11 < Size (pub_N sample_key)" by (rule rsa.room [OF sample_key_valid])
  then show ?thesis
    by (intro undecryptable_request_refused [THEN conjunct1])
      (auto simp: base64_decode_def b64_value_def Let_def)
qed

text \<open>
  C36: compression does not change an answer. For a client that accepts gzip, every handler
  leaves the same state and the same status, and a body that decompresses to the one it would
  have written without compression.
\<close>

theorem compressed_answer_same:
  assumes "f \<in> set (handlers L ord)" and "contains gzip_token (Header_Get (ReqHeader r) Accept_Encoding)"
    and "unzip_request L r = Some rz" and "fresh w"
    and "\<And>b. Gunzip L (byte_stream (Gzip L b)) = Some (byte_stream b)"
  shows "snd (GzipMiddleware L f r w h) = snd (f rz w h)
    \<and> status_of (fst (GzipMiddleware L f r w h)) = status_of (fst (f rz w h))
    \<and> Gunzip L (byte_stream (rbody (fst (GzipMiddleware L f r w h)))) = Some (byte_stream (rbody (fst (f rz w h))))"
proof -
  have "core (gzip_writer w) = core w" using assms(4) by (simp add: core_def)
  with handlers_alike [OF assms(1)] have a: "core (fst (f rz (gzip_writer w) h)) = core (fst (f rz w h))"
    "snd (f rz (gzip_writer w) h) = snd (f rz w h)" "broken (fst (f rz (gzip_writer w) h)) = broken (gzip_writer w)"
    unfolding alike_def by blast+
  obtain gw sz where eq: "f rz (gzip_writer w) h = (gw, sz)" by force
  note c = core_eqD [OF a(1)]
  show ?thesis using a(2,3) c eq assms(2-5) by (simp add: GzipMiddleware_def)
qed

theorem compressed_answer_same_witness:
  "Gunzip sample_lib (byte_stream (rbody (fst (GzipMiddleware sample_lib PingHandler
      (post ''/ping'' [(Accept_Encoding, ''gzip, br'')] []) new_writer (NewHandlers (InMemory NewMemStorage) [])))))
    = Some (byte_stream [])"
proof -
  let ?r = "post ''/ping'' [(Accept_Encoding, ''gzip, br'')] []" and ?h = "NewHandlers (InMemory NewMemStorage) []"
  have "Gunzip sample_lib (byte_stream (Gzip sample_lib b)) = Some (byte_stream b)" for b
    by (simp add: sample_lib_def byte_stream_def)
  moreover have "rbody (fst (PingHandler ?r new_writer ?h)) = []"
    by (auto simp: PingHandler_def split: prod.splits option.splits)
  ultimately show ?thesis
    using compressed_answer_same [of PingHandler sample_lib id ?r ?r new_writer ?h]
    by (simp add: handlers_def unzip_request_def gzip_token_def)
qed



end
