(* ===== verification/Server.thy ===== *)
theory Server
  imports StorageManager Router Config
begin

text \<open>
  \<^verbatim>\<open>cmd/server/main.go\<close> with \<^verbatim>\<open>NewDatabaseStorage\<close> and \<^verbatim>\<open>internal/storage/migrations.go\<close>: how
  the server is put together, and its life as a step relation: requests and the single calls they
  make of the store, ticks of the periodic save, and the steps of the graceful shutdown in the
  order of the code. The Postgres driver, goose and zap are parameters; ServerMain puts the
  process with its signals around this.
\<close>

section \<open>Opening the storage\<close>

record dblib =
  sql_Open :: "string \<Rightarrow> goerror option"
  SetDialect :: "string \<Rightarrow> goerror option"
  goose_Up :: "string \<Rightarrow> string \<Rightarrow> goerror option"
  goose_Status :: "string \<Rightarrow> string \<Rightarrow> goerror option"
  pgxpool_New :: "string \<Rightarrow> goerror + DatabaseStorage"

definition RunMigrations :: "dblib \<Rightarrow> string \<Rightarrow> string \<Rightarrow> goerror option" where
  "RunMigrations D dsn migrationsDir = (case sql_Open D dsn of
     Some e \<Rightarrow> Some (WrapErr ''failed to open database for migrations: '' e)
   | None \<Rightarrow> (case SetDialect D ''postgres'' of
       Some e \<Rightarrow> Some (WrapErr ''failed to set dialect: '' e)
     | None \<Rightarrow> (case goose_Up D dsn migrationsDir of
         Some e \<Rightarrow> Some (WrapErr ''failed to run migrations: '' e)
       | None \<Rightarrow> None)))"

definition CheckMigrationsStatus :: "dblib \<Rightarrow> string \<Rightarrow> string \<Rightarrow> goerror option" where
  "CheckMigrationsStatus D dsn migrationsDir = (case sql_Open D dsn of
     Some e \<Rightarrow> Some (WrapErr ''failed to open database for status check: '' e)
   | None \<Rightarrow> (case SetDialect D ''postgres'' of
       Some e \<Rightarrow> Some (WrapErr ''failed to set dialect: '' e)
     | None \<Rightarrow> (case goose_Status D dsn migrationsDir of
         Some e \<Rightarrow> Some (WrapErr ''failed to check migration status: '' e)
       | None \<Rightarrow> None)))"

definition NewDatabaseStorage :: "dblib \<Rightarrow> string \<Rightarrow> goerror + DatabaseStorage" where
  "NewDatabaseStorage D dsn = (case pgxpool_New D dsn of
     Inl e \<Rightarrow> Inl (WrapErr ''failed to open database: '' e)
   | Inr db \<Rightarrow> (case RunMigrations D dsn ''migrations'' of
       Some e \<Rightarrow> Inl (WrapErr ''failed to run migrations: '' e)
     | None \<Rightarrow> Inr db))"

definition initializeStorage :: "dblib \<Rightarrow> golib \<Rightarrow> filesystem \<Rightarrow> Config \<Rightarrow> goerror + store" where
  "initializeStorage D L fs cfg =
     (if DatabaseDSN cfg \<noteq> [] then
        (case NewDatabaseStorage D (DatabaseDSN cfg) of
           Inl e \<Rightarrow> Inl (WrapErr ''failed to connect to database: '' e)
         | Inr db \<Rightarrow> Inr (InDatabase db))
      else if FileStoragePath cfg \<noteq> [] then
        (if Restore cfg then Inr (snd (LoadFromFile L (FileStoragePath cfg) fs (InMemory NewMemStorage)))
         else Inr (InMemory NewMemStorage))
      else Inr (InMemory NewMemStorage))"

definition setupStorageManager :: "golib \<Rightarrow> filesystem \<Rightarrow> store \<Rightarrow> Config \<Rightarrow> StorageManager" where
  "setupStorageManager L fs st cfg = SM_Start L fs (NewStorageManager st
     \<lparr>sm_StoreInterval = StoreInterval cfg, sm_FileStoragePath = FileStoragePath cfg, sm_Restore = Restore cfg\<rparr>)"

definition setupHTTPServer :: "keylib \<Rightarrow> goerror option \<Rightarrow> filesystem \<Rightarrow> Config \<Rightarrow> store \<Rightarrow> goerror + Router" where
  "setupHTTPServer KL zap_error fs cfg st =
     (let router = NewRouter KL fs st (Key cfg) (CryptoKey cfg) in
      case zap_error of Some e \<Rightarrow> Inl (WrapErr ''cannot initialize zap logger: '' e) | None \<Rightarrow> Inr router)"

section \<open>The running server\<close>

text \<open>
  The store is one shared object, kept in the storage manager. The program counter is that of
  main: serving until the signal, then the statements of \<^verbatim>\<open>performGracefulShutdown\<close>.
\<close>

datatype server_pc = Serving | HTTPDown | PProfDown | Stopping | Stopped | Finished "goerror option"

record server =
  sv_sm :: StorageManager
  sv_fs :: filesystem
  sv_key :: "rsa_private option"
  sv_secret :: string
  sv_open :: bool                 \<comment> \<open>handlers may still run\<close>
  sv_pc :: server_pc

definition start_server :: "dblib \<Rightarrow> keylib \<Rightarrow> golib \<Rightarrow> goerror option \<Rightarrow> filesystem \<Rightarrow> Config \<Rightarrow> goerror + server" where
  "start_server D KL L zap_error fs cfg = (case initializeStorage D L fs cfg of
     Inl e \<Rightarrow> Inl e
   | Inr st \<Rightarrow>
      (let sm = setupStorageManager L fs st cfg in
       case setupHTTPServer KL zap_error fs cfg (sm_storage sm) of
         Inl e \<Rightarrow> Inl e
       | Inr R \<Rightarrow> Inr \<lparr>sv_sm = sm, sv_fs = fs, sv_key = router_key R, sv_secret = Handlers.key (router_handlers R),
            sv_open = True, sv_pc = Serving\<rparr>))"

text \<open>
  All that handlers share is the store, and they reach it only through these calls, each of
  which holds the store's lock or is one exchange with the database. Requests that overlap are
  runs of such calls in any order; a request that runs alone is one event of its own.
\<close>

datatype store_call =
    CallUpdateGauge string float64
  | CallUpdateCounter string int64
  | CallGetGauge string
  | CallGetCounter string
  | CallGetAllGauges
  | CallGetAllCounters
  | CallPing
  | CallUpdateBatch "Metrics list"

fun perform_call :: "store_call \<Rightarrow> store \<Rightarrow> store" where
  "perform_call (CallUpdateGauge n v) st = UpdateGauge n v st"
| "perform_call (CallUpdateCounter n d) st = UpdateCounter n d st"
| "perform_call (CallGetGauge n) st = snd (GetGauge n st)"
| "perform_call (CallGetCounter n) st = snd (GetCounter n st)"
| "perform_call CallGetAllGauges st = snd (GetAllGauges st)"
| "perform_call CallGetAllCounters st = snd (GetAllCounters st)"
| "perform_call CallPing st = snd (Ping st)"
| "perform_call (CallUpdateBatch ms) st = snd (UpdateBatch ms st)"

datatype server_event =
    Request request
  | Call store_call
  | Tick
  | GoroutineExit
  | HTTPShutdown "goerror option"    \<comment> \<open>with an error when the 30 seconds are over\<close>
  | PProfShutdown "goerror option"
  | StopSignal
  | StopReturn
  | FinalSave

definition serve :: "golib \<Rightarrow> map_order \<Rightarrow> chimux \<Rightarrow> server \<Rightarrow> request \<Rightarrow> writer \<times> Handlers" where
  "serve L ord chi s r = ServeHTTP L ord chi (sv_key s) r new_writer \<lparr>storage = sm_storage (sv_sm s), key = sv_secret s\<rparr>"

inductive server_step :: "golib \<Rightarrow> map_order \<Rightarrow> chimux \<Rightarrow> server \<Rightarrow> server_event \<Rightarrow> server \<Rightarrow> bool"
  for L ord chi where
  request: "sv_open s \<Longrightarrow> server_step L ord chi s (Request r)
     (s\<lparr>sv_sm := (sv_sm s)\<lparr>sm_storage := storage (snd (serve L ord chi s r))\<rparr>\<rparr>)"
| call: "sv_open s \<Longrightarrow> server_step L ord chi s (Call c)
     (s\<lparr>sv_sm := (sv_sm s)\<lparr>sm_storage := perform_call c (sm_storage (sv_sm s))\<rparr>\<rparr>)"
| tick: "0 < sm_running (sv_sm s) \<Longrightarrow> server_step L ord chi s Tick
     (s\<lparr>sv_fs := periodicSave_tick L (sv_sm s) (sv_fs s)\<rparr>)"
| goroutine_exit: "0 < sm_running (sv_sm s) \<Longrightarrow> sm_cancelled (sv_sm s) \<Longrightarrow> server_step L ord chi s GoroutineExit
     (s\<lparr>sv_sm := (sv_sm s)\<lparr>sm_running := sm_running (sv_sm s) - 1\<rparr>\<rparr>)"
| http_shutdown: "sv_pc s = Serving \<Longrightarrow> server_step L ord chi s (HTTPShutdown e)
     (s\<lparr>sv_pc := HTTPDown, sv_open := sv_open s \<and> e \<noteq> None\<rparr>)"
| pprof_shutdown: "sv_pc s = HTTPDown \<Longrightarrow> server_step L ord chi s (PProfShutdown e) (s\<lparr>sv_pc := PProfDown\<rparr>)"
| stop_signal: "sv_pc s = PProfDown \<Longrightarrow> server_step L ord chi s StopSignal
     (s\<lparr>sv_pc := Stopping, sv_sm := SM_Stop_signal (sv_sm s)\<rparr>)"
| stop_return: "sv_pc s = Stopping \<Longrightarrow> \<not> SM_Stop_waits (sv_sm s) \<Longrightarrow> server_step L ord chi s StopReturn (s\<lparr>sv_pc := Stopped\<rparr>)"
| final_save: "sv_pc s = Stopped \<Longrightarrow> SM_Shutdown L (sv_sm s) (sv_fs s) = (e, sm', fs') \<Longrightarrow> server_step L ord chi s FinalSave
     (s\<lparr>sv_pc := Finished e, sv_sm := sm', sv_fs := fs'\<rparr>)"

section \<open>The store keeps its kind\<close>

definition in_memory :: "store \<Rightarrow> bool" where
  "in_memory st = (case st of InMemory m \<Rightarrow> True | InDatabase d \<Rightarrow> False)"

lemma in_memory_ops [simp]:
  "in_memory (InMemory m)" "\<not> in_memory (InDatabase d)"
  "in_memory (UpdateGauge n v st) = in_memory st" "in_memory (UpdateCounter n i st) = in_memory st"
  "in_memory (snd (GetGauge n st)) = in_memory st" "in_memory (snd (GetCounter n st)) = in_memory st"
  "in_memory (snd (GetAllGauges st)) = in_memory st" "in_memory (snd (GetAllCounters st)) = in_memory st"
  "in_memory (snd (UpdateBatch ms st)) = in_memory st" "in_memory (snd (Ping st)) = in_memory st"
  "in_memory (snd (LoadFromFile L f fs st)) = in_memory st"
  by (cases st; simp add: in_memory_def)+

text \<open>What a handler does to the store is a sequence of calls.\<close>

definition by_calls :: "store \<Rightarrow> store \<Rightarrow> bool" where
  "by_calls st st' \<longleftrightarrow> (\<exists>cs. st' = fold perform_call cs st)"

lemma by_calls_refl [simp]: "by_calls st st"
  unfolding by_calls_def by (intro exI [of _ "[]"]) simp

lemma by_calls_step: "by_calls st st' \<Longrightarrow> by_calls st (perform_call c st')"
  unfolding by_calls_def by (metis fold_simps fold_append comp_apply)

lemma by_calls_updates:
  assumes "by_calls st st'"
  shows "by_calls st (UpdateGauge n v st')" "by_calls st (UpdateCounter n d st')"
  using by_calls_step [OF assms, of "CallUpdateGauge n v"] by_calls_step [OF assms, of "CallUpdateCounter n d"] by simp_all

lemma by_calls_pairs:
  assumes "by_calls st st'"
  shows "GetGauge n st' = (rg, u) \<Longrightarrow> by_calls st u" "GetCounter n st' = (rc, u) \<Longrightarrow> by_calls st u"
    "GetAllGauges st' = (mg, u) \<Longrightarrow> by_calls st u" "GetAllCounters st' = (mc, u) \<Longrightarrow> by_calls st u"
    "UpdateBatch ms st' = (e, u) \<Longrightarrow> by_calls st u" "Ping st' = (p, u) \<Longrightarrow> by_calls st u"
  using by_calls_step [OF assms, of "CallGetGauge n"] by_calls_step [OF assms, of "CallGetCounter n"]
    by_calls_step [OF assms, of CallGetAllGauges] by_calls_step [OF assms, of CallGetAllCounters]
    by_calls_step [OF assms, of "CallUpdateBatch ms"] by_calls_step [OF assms, of CallPing] by simp_all

lemma in_memory_calls: "by_calls st st' \<Longrightarrow> in_memory st' = in_memory st"
proof -
  have "in_memory (perform_call c st) = in_memory st" for c st by (cases c) simp_all
  then have "in_memory (fold perform_call cs st) = in_memory st" for cs by (induction cs arbitrary: st) simp_all
  then show "by_calls st st' \<Longrightarrow> in_memory st' = in_memory st" by (auto simp: by_calls_def)
qed

lemma handlers_by_calls:
  assumes "f \<in> set (handlers L ord)"
  shows "answers (\<lambda>l c s s'. by_calls (storage s) (storage s')) f"
proof -
  have "by_calls (storage h) (storage (snd (f r w h)))" for r w h
  proof -
    note pairs = by_calls_pairs [OF by_calls_refl]  by_calls_pairs [OF by_calls_updates(1) [OF by_calls_refl]] by_calls_pairs [OF by_calls_updates(2) [OF by_calls_refl]]
    note upd = by_calls_updates [OF by_calls_refl]
    consider "f = UpdateHandler L" | "f = ValueHandler L" | "f = IndexHandler L" | "f = PingHandler"
      | "f = UpdateJSONHandler L" | "f = ValueJSONHandler L" | "f = UpdatesHandler L ord"
      using assms by (auto simp: handlers_def)
    then show ?thesis
    proof cases
      case 1
      then show ?thesis by (auto simp: UpdateHandler_def Let_def intro: upd split: option.splits)
    next
      case 2
      then show ?thesis by (auto simp: ValueHandler_def Let_def dest: pairs split: prod.splits sum.splits)
    next
      case 3
      then show ?thesis by (auto simp: IndexHandler_def dest!: by_calls_pairs(3) [OF by_calls_refl] intro: by_calls_pairs(4) split: prod.splits)
    next
      case 4
      then show ?thesis by (auto simp: PingHandler_def dest: pairs split: prod.splits option.splits)
    next
      case 5
      then show ?thesis
        by (auto simp: UpdateJSONHandler_def Let_def dest: pairs intro: upd split: prod.splits option.splits sum.splits)
    next
      case 6
      then show ?thesis
        by (auto simp: ValueJSONHandler_def Let_def dest: pairs intro: upd split: prod.splits option.splits sum.splits)
    next
      case 7
      then show ?thesis by (auto simp: UpdatesHandler_def Let_def dest: pairs split: prod.splits option.splits)
    qed
  qed
  then show ?thesis by (simp add: answers_def)
qed

lemma serve_by_calls:
  assumes "chi_law chi"
  shows "by_calls (sm_storage (sv_sm s)) (storage (snd (serve L ord chi s r)))"
proof -
  have "answers (\<lambda>l c s s'. by_calls (storage s) (storage s')) (ServeHTTP L ord chi (sv_key s))"
    using assms handlers_by_calls by (intro answers_router) auto
  then have "by_calls (storage h) (storage (snd (ServeHTTP L ord chi (sv_key s) r new_writer h)))" for h
    using fresh_new unfolding answers_def by blast
  from this [of "\<lparr>storage = sm_storage (sv_sm s), key = sv_secret s\<rparr>"] show ?thesis by (simp add: serve_def)
qed

lemma serve_in_memory:
  "chi_law chi \<Longrightarrow> in_memory (storage (snd (serve L ord chi s r))) = in_memory (sm_storage (sv_sm s))"
  by (rule in_memory_calls [OF serve_by_calls])

lemma call_in_memory [simp]: "in_memory (perform_call c st) = in_memory st"
  using in_memory_calls [OF by_calls_step [OF by_calls_refl]] .

text \<open>A request that runs alone is one of the runs of its calls.\<close>

lemma calls_run:
  "sv_open s \<Longrightarrow> run (server_step L ord chi) s (map Call cs)
     (s\<lparr>sv_sm := (sv_sm s)\<lparr>sm_storage := fold perform_call cs (sm_storage (sv_sm s))\<rparr>\<rparr>)"
proof (induction cs arbitrary: s)
  case (Cons c cs)
  from server_step.call [OF Cons.prems, of L ord chi c] Cons.IH [of "s\<lparr>sv_sm := (sv_sm s)\<lparr>sm_storage := perform_call c (sm_storage (sv_sm s))\<rparr>\<rparr>"]
  show ?case using Cons.prems by (auto intro: run_cons)
qed simp

lemma request_is_calls:
  assumes "server_step L ord chi s (Request r) t" and "chi_law chi"
  shows "\<exists>cs. run (server_step L ord chi) s (map Call cs) t"
proof -
  have "sv_open s" and t: "t = s\<lparr>sv_sm := (sv_sm s)\<lparr>sm_storage := storage (snd (serve L ord chi s r))\<rparr>\<rparr>"
    using assms(1) by (auto elim: server_step.cases)
  obtain cs where "storage (snd (serve L ord chi s r)) = fold perform_call cs (sm_storage (sv_sm s))"
    using serve_by_calls [OF assms(2), of s L ord r] unfolding by_calls_def by blast
  with calls_run [OF \<open>sv_open s\<close>, of L ord chi cs] t show ?thesis by auto
qed

section \<open>The invariant\<close>

text \<open>
  The goroutine is gone once Stop has returned, so the last write of the file is the one of
  Shutdown; and when that succeeded and no handler can still run, the file holds the store.
\<close>

definition stop_inv :: "server \<Rightarrow> bool" where
  "stop_inv s \<longleftrightarrow> sm_running (sv_sm s) \<le> 1 \<and> (case sv_pc s of
       Serving \<Rightarrow> \<not> sm_stopped (sv_sm s) | HTTPDown \<Rightarrow> \<not> sm_stopped (sv_sm s) | PProfDown \<Rightarrow> \<not> sm_stopped (sv_sm s)
     | Stopping \<Rightarrow> sm_cancelled (sv_sm s)
     | Stopped \<Rightarrow> sm_running (sv_sm s) = 0 | Finished e \<Rightarrow> sm_running (sv_sm s) = 0)"

definition saved :: "golib \<Rightarrow> server \<Rightarrow> bool" where
  "saved L s \<longleftrightarrow> (sv_pc s = Finished None \<longrightarrow> \<not> sv_open s \<longrightarrow>
     (\<forall>m. sm_storage (sv_sm s) = InMemory m \<longrightarrow> sm_FileStoragePath (sm_config (sv_sm s)) \<noteq> [] \<longrightarrow>
       (\<exists>fs0. open_error fs0 = open_error (sv_fs s)
         \<and> Mem_SaveToFile L (sm_FileStoragePath (sm_config (sv_sm s))) m fs0 = (None, sv_fs s))))"

lemma SM_Stop_signal_fields [simp]:
  "sm_running (SM_Stop_signal sm) = sm_running sm" "sm_storage (SM_Stop_signal sm) = sm_storage sm"
  "sm_config (SM_Stop_signal sm) = sm_config sm"
  "\<not> sm_stopped sm \<Longrightarrow> sm_cancelled (SM_Stop_signal sm)"
  by (simp_all add: SM_Stop_signal_def)

lemma SM_Shutdown_memory:
  assumes "SM_Shutdown L sm fs = (e, sm', fs')" and "sm_storage sm = InMemory m"
  shows "sm' = sm" and "sm_FileStoragePath (sm_config sm) \<noteq> [] \<Longrightarrow> Mem_SaveToFile L (sm_FileStoragePath (sm_config sm)) m fs = (e, fs')"
  using assms
  by (cases "Mem_SaveToFile L (sm_FileStoragePath (sm_config sm)) m fs"; cases "fst (Mem_SaveToFile L (sm_FileStoragePath (sm_config sm)) m fs)";
      auto simp: SM_Shutdown_def Let_def split: if_splits)+

lemma SM_Shutdown_database:
  assumes "SM_Shutdown L sm fs = (e, sm', fs')" and "sm_storage sm = InDatabase d"
  shows "e = None \<and> fs' = fs \<and> sm' = sm\<lparr>sm_storage := InDatabase (d\<lparr>wld := (wld d)\<lparr>closed := True\<rparr>\<rparr>)\<rparr>"
  using assms by (auto simp: SM_Shutdown_def close_store_def DB_Close_def)

lemma SM_Shutdown_keeps:
  assumes "SM_Shutdown L sm fs = (e, sm', fs')"
  shows "sm_running sm' = sm_running sm" "sm_config sm' = sm_config sm" "in_memory (sm_storage sm') = in_memory (sm_storage sm)"
  using SM_Shutdown_memory(1) [OF assms] SM_Shutdown_database [OF assms] by (cases "sm_storage sm"; simp)+

lemma server_step_inv:
  assumes "server_step L ord chi s e t" and "stop_inv s"
  shows "stop_inv t"
  using assms
  by cases (auto simp: stop_inv_def SM_Stop_waits_def SM_Shutdown_keeps split: server_pc.splits)

lemma server_step_saved:
  assumes "server_step L ord chi s e t" and "stop_inv s" and "saved L s"
  shows "saved L t"
  using assms(1)
proof cases
  case (final_save err sm' fs')
  show ?thesis unfolding saved_def
  proof (intro impI allI)
    fix m
    let ?p = "sm_FileStoragePath (sm_config (sv_sm t))"
    assume fin: "sv_pc t = Finished None" and m: "sm_storage (sv_sm t) = InMemory m" and p: "?p \<noteq> []"
    have e: "err = None" and t: "sv_sm t = sm'" "sv_fs t = fs'" using final_save(2) fin by simp_all
    have "in_memory (sm_storage (sv_sm s))" using SM_Shutdown_keeps(3) [OF final_save(4)] m t by simp
    then obtain m0 where m0: "sm_storage (sv_sm s) = InMemory m0" by (auto simp: in_memory_def split: store.splits)
    note sh = SM_Shutdown_memory [OF final_save(4) m0]
    have "m0 = m" using sh(1) m0 m t by simp
    then have save: "Mem_SaveToFile L ?p m (sv_fs s) = (None, sv_fs t)" using sh p e t by simp
    then have "open_error (sv_fs s) = open_error (sv_fs t)" using Mem_SaveToFile_frame(1) [of L ?p m "sv_fs s"] by simp
    with save show "\<exists>fs0. open_error fs0 = open_error (sv_fs t) \<and> Mem_SaveToFile L ?p m fs0 = (None, sv_fs t)" by blast
  qed
qed (use assms(2,3) in \<open>auto simp: saved_def stop_inv_def\<close>)

definition shutdown_work :: "server \<Rightarrow> nat" where
  "shutdown_work s = sm_running (sv_sm s) + (case sv_pc s of
     Serving \<Rightarrow> 5 | HTTPDown \<Rightarrow> 4 | PProfDown \<Rightarrow> 3 | Stopping \<Rightarrow> 2 | Stopped \<Rightarrow> 1 | Finished e \<Rightarrow> 0)"

fun shutdown_event :: "server_event \<Rightarrow> bool" where
  "shutdown_event (Request r) = False"
| "shutdown_event (Call c) = False"
| "shutdown_event Tick = False"
| "shutdown_event e = True"

definition server_finished :: "server \<Rightarrow> bool" where
  "server_finished s \<longleftrightarrow> (case sv_pc s of Finished e \<Rightarrow> True | _ \<Rightarrow> False)"

lemma shutdown_progress:
  assumes "stop_inv s" and "\<not> server_finished s"
  shows "\<exists>e t. shutdown_event e \<and> server_step L ord chi s e t \<and> shutdown_work t < shutdown_work s"
proof -
  have use: ?thesis if "server_step L ord chi s e t" "shutdown_event e" "shutdown_work t < shutdown_work s" for e t
    using that by blast
  show ?thesis
  proof (cases "sv_pc s")
    case Serving
    then show ?thesis
      by (intro use [OF server_step.http_shutdown [OF Serving, where e = None]]) (simp_all add: shutdown_work_def)
  next
    case HTTPDown
    then show ?thesis
      by (intro use [OF server_step.pprof_shutdown [OF HTTPDown, where e = None]]) (simp_all add: shutdown_work_def)
  next
    case PProfDown
    then show ?thesis by (intro use [OF server_step.stop_signal [OF PProfDown]]) (simp_all add: shutdown_work_def)
  next
    case Stopping
    show ?thesis
    proof (cases "0 < sm_running (sv_sm s)")
      case True
      then show ?thesis using assms(1) Stopping
        by (intro use [OF server_step.goroutine_exit]) (simp_all add: shutdown_work_def stop_inv_def)
    next
      case False
      then show ?thesis using Stopping
        by (intro use [OF server_step.stop_return]) (simp_all add: shutdown_work_def SM_Stop_waits_def)
    qed
  next
    case Stopped
    obtain e sm' fs' where sh: "SM_Shutdown L (sv_sm s) (sv_fs s) = (e, sm', fs')" by (metis prod_cases3)
    then show ?thesis using Stopped SM_Shutdown_keeps(1) [OF sh]
      by (intro use [OF server_step.final_save [OF Stopped sh]]) (simp_all add: shutdown_work_def)
  next
    case (Finished e)
    then show ?thesis using assms(2) by (simp add: server_finished_def)
  qed
qed

interpretation life: draining "server_step L ord chi" "\<lambda>s. stop_inv s \<and> saved L s" server_finished shutdown_work shutdown_event
  for L ord chi
  using server_step_inv server_step_saved shutdown_progress by unfold_locales blast+

section \<open>Starting\<close>

lemma start_server_inv:
  assumes "start_server D KL L z fs cfg = Inr s"
  shows "stop_inv s \<and> saved L s \<and> sv_fs s = fs \<and> sv_open s \<and> sv_pc s = Serving"
  using assms SM_Start_running
  by (auto simp: start_server_def setupStorageManager_def stop_inv_def saved_def NewStorageManager_def Let_def split: sum.splits)

lemma start_server_sm:
  assumes "start_server D KL L z fs cfg = Inr s"
  shows "\<exists>st. initializeStorage D L fs cfg = Inr st \<and> sv_sm s = setupStorageManager L fs st cfg"
  using assms by (auto simp: start_server_def Let_def split: sum.splits)

lemma setupStorageManager_fields:
  "sm_storage (setupStorageManager L fs st cfg) =
     (if \<not> IsDatabase st \<and> Restore cfg then snd (LoadFromFile L (FileStoragePath cfg) fs st) else st)"
  "sm_config (setupStorageManager L fs st cfg) =
     \<lparr>sm_StoreInterval = StoreInterval cfg, sm_FileStoragePath = FileStoragePath cfg, sm_Restore = Restore cfg\<rparr>"
  by (simp_all add: setupStorageManager_def SM_Start_def NewStorageManager_def Let_def)

text \<open>Without a DSN the store is in memory; with a file to restore it is what the file holds.\<close>

lemma start_server_memory:
  assumes "start_server D KL L z fs cfg = Inr s" and "DatabaseDSN cfg = []"
  shows "in_memory (sm_storage (sv_sm s))" "sm_config (sv_sm s)
    = \<lparr>sm_StoreInterval = StoreInterval cfg, sm_FileStoragePath = FileStoragePath cfg, sm_Restore = Restore cfg\<rparr>"
proof -
  from start_server_sm [OF assms(1)] obtain st
    where st: "initializeStorage D L fs cfg = Inr st" and sm: "sv_sm s = setupStorageManager L fs st cfg" by blast
  have "in_memory st" using st assms(2) by (auto simp: initializeStorage_def split: if_splits)
  then show "in_memory (sm_storage (sv_sm s))" by (simp add: sm setupStorageManager_fields)
  show "sm_config (sv_sm s) = \<lparr>sm_StoreInterval = StoreInterval cfg, sm_FileStoragePath = FileStoragePath cfg, sm_Restore = Restore cfg\<rparr>"
    by (simp add: sm setupStorageManager_fields)
qed

lemma start_server_restores:
  assumes "start_server D KL L z fs cfg = Inr s" and "DatabaseDSN cfg = []" and "FileStoragePath cfg \<noteq> []" and "Restore cfg"
    and "\<And>m'. Mem_LoadFromFile L (FileStoragePath cfg) fs m' = (None, m)"
  shows "sm_storage (sv_sm s) = InMemory m"
proof -
  from start_server_sm [OF assms(1)] obtain st
    where st: "initializeStorage D L fs cfg = Inr st" and sm: "sv_sm s = setupStorageManager L fs st cfg" by blast
  have "st = InMemory m" using st assms(2-5) by (auto simp: initializeStorage_def)
  then show ?thesis using assms(4,5) by (simp add: sm setupStorageManager_fields)
qed

section \<open>Along a run\<close>

lemma SaveToFile_open_error [simp]: "open_error (snd (SaveToFile L f st fs)) = open_error fs"
  by (cases st) simp_all

lemma SM_Shutdown_open_error:
  assumes "SM_Shutdown L sm fs = (e, sm', fs')"
  shows "open_error fs' = open_error fs"
proof (cases "sm_storage sm")
  case (InMemory m)
  have "fs' = fs \<or> fs' = snd (Mem_SaveToFile L (sm_FileStoragePath (sm_config sm)) m fs)"
  proof (cases "sm_FileStoragePath (sm_config sm) = []")
    case True
    then show ?thesis using assms InMemory by (simp add: SM_Shutdown_def)
  next
    case False
    from SM_Shutdown_memory(2) [OF assms InMemory this] show ?thesis by simp
  qed
  then show ?thesis by auto
next
  case (InDatabase d)
  from SM_Shutdown_database [OF assms this] show ?thesis by simp
qed

lemma server_step_constants:
  assumes "server_step L ord chi s e t" and "chi_law chi"
  shows "sm_config (sv_sm t) = sm_config (sv_sm s)" "in_memory (sm_storage (sv_sm t)) = in_memory (sm_storage (sv_sm s))"
    "open_error (sv_fs t) = open_error (sv_fs s)"
  using assms
  by (cases; simp add: serve_in_memory periodicSave_tick_def SM_Shutdown_keeps SM_Shutdown_open_error)+

lemma server_run_constants:
  assumes "run (server_step L ord chi) s es t" and "chi_law chi"
  shows "sm_config (sv_sm t) = sm_config (sv_sm s)" "in_memory (sm_storage (sv_sm t)) = in_memory (sm_storage (sv_sm s))"
    "open_error (sv_fs t) = open_error (sv_fs s)"
  using assms(1) server_step_constants [OF _ assms(2)]
  by (induction rule: run.induct) simp_all

section \<open>A server to exercise the theorems on\<close>

inductive_simps server_step_iff:
  "server_step L ord chi s (HTTPShutdown e) t" "server_step L ord chi s (PProfShutdown e) t"
  "server_step L ord chi s StopSignal t" "server_step L ord chi s GoroutineExit t"
  "server_step L ord chi s StopReturn t" "server_step L ord chi s FinalSave t"

definition sample_dblib :: dblib where
  "sample_dblib = \<lparr>sql_Open = (\<lambda>_. None), SetDialect = (\<lambda>_. None), goose_Up = (\<lambda>_ _. None), goose_Status = (\<lambda>_ _. None),
     pgxpool_New = (\<lambda>_. Inl (TextErr ''no database''))\<rparr>"

definition sample_config :: Config where
  "sample_config = \<lparr>RunAddr = ''localhost:8080'', StoreInterval = 300, FileStoragePath = ''m'', Restore = True,
     DatabaseDSN = [], Key = [], CryptoKey = []\<rparr>"

definition sample_memory :: MemStorage where
  "sample_memory = \<lparr>gauges = [''g'' \<mapsto> f64_one_half], counters = [''c'' \<mapsto> 7]\<rparr>"

definition sample_disk :: filesystem where
  "sample_disk = disk [''m'' \<mapsto> sample_dump_text]"

definition sample_server :: server where
  "sample_server = \<lparr>sv_sm = \<lparr>sm_storage = InMemory sample_memory,
       sm_config = \<lparr>sm_StoreInterval = 300, sm_FileStoragePath = ''m'', sm_Restore = True\<rparr>,
       sm_cancelled = False, sm_running = 1, sm_stopped = False\<rparr>,
     sv_fs = sample_disk, sv_key = None, sv_secret = [], sv_open = True, sv_pc = Serving\<rparr>"

definition sample_ended :: server where
  "sample_ended = sample_server\<lparr>sv_sm := (sv_sm sample_server)\<lparr>sm_cancelled := True, sm_running := 0, sm_stopped := True\<rparr>,
     sv_open := False, sv_pc := Finished None\<rparr>"

lemma sample_load: "Mem_LoadFromFile sample_lib ''m'' sample_disk m = (None, sample_memory)"
  by (cases m) (simp add: Mem_LoadFromFile_def os_open_def sample_disk_def disk_def sample_lib_def sample_dump_def sample_memory_def)

lemma sample_save: "Mem_SaveToFile sample_lib ''m'' sample_memory sample_disk = (None, sample_disk)"
  by (simp add: Mem_SaveToFile_def os_create_def file_write_def sample_disk_def disk_def sample_lib_def sample_dump_def
      sample_memory_def fun_upd_idem_iff)

lemma sample_start: "start_server sample_dblib sample_keylib sample_lib None sample_disk sample_config = Inr sample_server"
  by (simp add: start_server_def initializeStorage_def setupStorageManager_def setupHTTPServer_def NewRouter_def NewHandlers_def
      SM_Start_def NewStorageManager_def sample_config_def sample_server_def sample_load Let_def)

lemma sample_run: "run (server_step sample_lib id sample_chi) sample_server
    [HTTPShutdown None, PProfShutdown None, StopSignal, GoroutineExit, StopReturn, FinalSave] sample_ended"
  by (simp add: run_cons_iff server_step_iff sample_server_def sample_ended_def SM_Stop_signal_def SM_Stop_waits_def
      SM_Shutdown_def sample_save)

section \<open>Properties\<close>

text \<open>
  A shutdown can always be completed. From every state that the server can reach after it
  was started, at most six more steps of main and of the saving goroutine, with no further
  request or tick of the timer, lead to the end of main.
\<close>

theorem shutdown_completes:
  assumes "start_server D KL L z fs cfg = Inr s" and "run (server_step L ord chi) s es t"
  shows "\<exists>fs' u. run (server_step L ord chi) t fs' u \<and> server_finished u \<and> list_all shutdown_event fs' \<and> length fs' \<le> 6"
proof -
  have inv: "stop_inv t \<and> saved L t" using life.run_keeps [OF assms(2)] start_server_inv [OF assms(1)] by blast
  then have "shutdown_work t \<le> 6" by (auto simp: shutdown_work_def stop_inv_def split: server_pc.splits)
  with life.can_finish [OF inv, of ord chi] show ?thesis using order_trans by blast
qed

theorem shutdown_completes_witness:
  "\<exists>fs' u. run (server_step sample_lib id sample_chi) sample_server fs' u \<and> server_finished u
    \<and> list_all shutdown_event fs' \<and> length fs' \<le> 6"
  by (rule shutdown_completes [OF sample_start run_nil])



end
