(* ===== verification/Tools.thy ===== *)
theory Tools
  imports Agent Server
begin

text \<open>
  The small programs: \<^verbatim>\<open>cmd/keygen/main.go\<close>, which writes a pair of keys, \<^verbatim>\<open>cmd/migrate/main.go\<close>, which
  runs or shows the migrations, and the build information that both mains print. Their command
  lines are parsed with ExitOnError. A main's result is how it ends and what it printed.
\<close>

section \<open>Build information\<close>

definition printBuildInfo :: "string \<Rightarrow> string \<Rightarrow> string \<Rightarrow> string list" where
  "printBuildInfo buildVersion buildDate buildCommit =
     (let na = (\<lambda>s. if s = [] then ''N/A'' else s) in
      [''Build version: '' @ na buildVersion, ''Build date: '' @ na buildDate, ''Build commit: '' @ na buildCommit])"

section \<open>How a program ends\<close>

datatype 'e ending = Completed | FlagExit | Fatal 'e

text \<open>The last assignment to a flag counts.\<close>

definition string_flag :: "string \<Rightarrow> string \<Rightarrow> (string \<times> flag_value) list \<Rightarrow> string" where
  "string_flag name dflt assigns = fold (\<lambda>(n, v) x. case v of StringV s \<Rightarrow> if n = name then s else x | _ \<Rightarrow> x) assigns dflt"

definition int_flag :: "string \<Rightarrow> int64 \<Rightarrow> (string \<times> flag_value) list \<Rightarrow> int64" where
  "int_flag name dflt assigns = fold (\<lambda>(n, v) x. case v of IntV i \<Rightarrow> if n = name then i else x | _ \<Rightarrow> x) assigns dflt"

section \<open>keygen\<close>

record keygen_flags =
  privateKeyFile :: string
  publicKeyFile :: string
  keySize :: int64

definition keygen_parse :: "string list \<Rightarrow> keygen_flags option" where
  "keygen_parse args = map_option
     (\<lambda>as. \<lparr>privateKeyFile = string_flag ''private'' ''private.pem'' as, publicKeyFile = string_flag ''public'' ''public.pem'' as,
       keySize = int_flag ''size'' 2048 as\<rparr>)
     (parse_args (map_of [(''private'', StringFlag), (''public'', StringFlag), (''size'', IntFlag)]) args)"

definition keygen_main :: "keylib \<Rightarrow> string list \<Rightarrow> filesystem \<Rightarrow> crypto_error ending \<times> filesystem" where
  "keygen_main KL args fs = (case keygen_parse args of
     None \<Rightarrow> (FlagExit, fs)
   | Some fl \<Rightarrow>
      (case GenerateKeyPair KL (sint (keySize fl)) of
         Inl e \<Rightarrow> (Fatal e, fs)
       | Inr (privateKey, publicKey) \<Rightarrow>
          (case SavePrivateKeyToFile KL (privateKeyFile fl) privateKey fs of
             (Some e, fs1) \<Rightarrow> (Fatal e, fs1)
           | (None, fs1) \<Rightarrow>
              (case SavePublicKeyToFile KL (publicKeyFile fl) publicKey fs1 of
                 (Some e, fs2) \<Rightarrow> (Fatal e, fs2)
               | (None, fs2) \<Rightarrow> (Completed, fs2)))))"

section \<open>migrate\<close>

record migrate_flags =
  m_dsn :: string
  migrationsDir :: string
  m_command :: string

definition migrate_parse :: "string list \<Rightarrow> migrate_flags option" where
  "migrate_parse args = map_option
     (\<lambda>as. \<lparr>m_dsn = string_flag ''dsn'' [] as, migrationsDir = string_flag ''dir'' ''migrations'' as,
       m_command = string_flag ''command'' ''up'' as\<rparr>)
     (parse_args (map_of [(''dsn'', StringFlag), (''dir'', StringFlag), (''command'', StringFlag)]) args)"

definition migrate_main :: "dblib \<Rightarrow> string list \<Rightarrow> goerror ending \<times> string list" where
  "migrate_main D args = (case migrate_parse args of
     None \<Rightarrow> (FlagExit, [])
   | Some fl \<Rightarrow>
      (if m_dsn fl = [] then (Fatal (TextErr ''DSN is required''), [])
       else if m_command fl = ''up'' then
         (case RunMigrations D (m_dsn fl) (migrationsDir fl) of
            Some e \<Rightarrow> (Fatal (WrapErr ''Failed to run migrations: '' e), [])
          | None \<Rightarrow> (Completed, [''Migrations completed successfully'']))
       else if m_command fl = ''status'' then
         (case CheckMigrationsStatus D (m_dsn fl) (migrationsDir fl) of
            Some e \<Rightarrow> (Fatal (WrapErr ''Failed to check migration status: '' e), [])
          | None \<Rightarrow> (Completed, []))
       else if m_command fl = ''down'' then (Completed, [''Down migrations not implemented yet''])
       else (Fatal (TextErr ''Invalid command''),
             [''Unknown command: '' @ m_command fl, ''Available commands: up, down, status''])))"

text \<open>Only the commands up and status ever touch the database, and only with a DSN.\<close>

lemma migrate_touches_database:
  assumes "migrate_parse args = Some fl" and "m_dsn fl = [] \<or> m_command fl \<notin> {''up'', ''status''}"
  shows "migrate_main D args = migrate_main D' args"
  using assms by (auto simp: migrate_main_def)

text \<open>With an empty command line, keygen writes a key of 2048 bits to the two default files.\<close>

lemma keygen_defaults:
  "keygen_parse [] = Some \<lparr>privateKeyFile = ''private.pem'', publicKeyFile = ''public.pem'', keySize = 2048\<rparr>"
  by (simp add: keygen_parse_def string_flag_def int_flag_def)

section \<open>From keygen to agent and server\<close>

definition agent_server_keys :: "MetricsSender \<Rightarrow> rsa_private option \<Rightarrow> bool" where
  "agent_server_keys A K \<longleftrightarrow> (case ms_publicKey A of None \<Rightarrow> True
     | Some P \<Rightarrow> (case K of None \<Rightarrow> False | Some K' \<Rightarrow> valid_key K' \<and> P = public_part K'))"

lemma keygen_saves:
  assumes "keygen_main KL args fs = (Completed, fs')" and "keygen_parse args = Some fl"
  shows "\<exists>K P fs1. GenerateKeyPair KL (sint (keySize fl)) = Inr (K, P)
    \<and> SavePrivateKeyToFile KL (privateKeyFile fl) K fs = (None, fs1) \<and> SavePublicKeyToFile KL (publicKeyFile fl) P fs1 = (None, fs')"
  using assms by (auto simp: keygen_main_def split: sum.splits prod.splits option.splits)

section \<open>Properties\<close>

text \<open>
  C28: after a successful run of keygen, an agent configured with the public file and a server
  configured with the private file have matching keys: the agent encrypts, and the server holds
  the valid private key of the agent's public key.
\<close>

theorem keygen_keys_match:
  assumes "key_laws KL" and "keygen_main KL args fs = (Completed, fs')" and "keygen_parse args = Some fl"
    and "privateKeyFile fl \<noteq> publicKeyFile fl" and "open_error fs = (\<lambda>_. None)"
    and "AgentCryptoKey acfg = publicKeyFile fl" and "CryptoKey scfg = privateKeyFile fl"
    and "privateKeyFile fl \<noteq> []" and "publicKeyFile fl \<noteq> []"
  shows "ms_publicKey (NewMetricsSender KL fs' acfg) \<noteq> None
    \<and> agent_server_keys (NewMetricsSender KL fs' acfg) (router_key (NewRouter KL fs' st k (CryptoKey scfg)))"
proof -
  obtain K P fs1 where gen: "GenerateKeyPair KL (sint (keySize fl)) = Inr (K, P)"
    and save: "SavePrivateKeyToFile KL (privateKeyFile fl) K fs = (None, fs1)" "SavePublicKeyToFile KL (publicKeyFile fl) P fs1 = (None, fs')"
    using keygen_saves [OF assms(2,3)] by blast
  have "P = public_part K" "valid_key K"
    using gen assms(1) by (auto simp: GenerateKeyPair_def key_laws_def split: sum.splits)
  with saved_keys_load [OF assms(1) gen save assms(4,5)] show ?thesis
    using assms(6-9) by (simp add: agent_server_keys_def NewMetricsSender_def NewRouter_def)
qed

theorem keygen_keys_match_witness:
  "agent_server_keys (NewMetricsSender sample_keylib (snd (keygen_main sample_keylib [] (disk Map.empty)))
      \<lparr>Address = ''localhost:8080'', ReportInterval = 10, PollInterval = 2, AgentKey = [], RateLimit = 1, AgentCryptoKey = ''public.pem''\<rparr>)
    (router_key (NewRouter sample_keylib (snd (keygen_main sample_keylib [] (disk Map.empty))) (InMemory NewMemStorage) [] ''private.pem''))"
proof -
  have "fst (keygen_main sample_keylib [] (disk Map.empty)) = Completed"
    by (simp add: keygen_main_def keygen_defaults GenerateKeyPair_def SavePrivateKeyToFile_def SavePublicKeyToFile_def write_pem_def
        os_create_def file_write_def disk_def sample_keylib_def)
  then have run: "keygen_main sample_keylib [] (disk Map.empty) = (Completed, snd (keygen_main sample_keylib [] (disk Map.empty)))"
    by (metis prod.collapse)
  show ?thesis
    using keygen_keys_match [OF sample_keylib_laws run keygen_defaults, where scfg = "sample_config\<lparr>CryptoKey := ''private.pem''\<rparr>"]
    by (simp add: disk_def)
qed

end
