(* ===== verification/ServerMain.thy ===== *)
theory ServerMain
  imports Tools
begin

text \<open>
  \<^verbatim>\<open>cmd/server/main.go\<close> as a process: main from the build information to its return, the two
  listening goroutines, the operating system's signals, and the periodic save in the three
  moments at which others can act between its parts. A process ends by the return of main,
  by \<^verbatim>\<open>log.Fatalf\<close>, by a signal or by a panic, and what it leaves is the file.
\<close>

section \<open>Signals\<close>

text \<open>
  The signals that end a Go program which does not ask for them. \<^verbatim>\<open>signal.Notify\<close> redirects those
  that main waits for into a channel of capacity one; SIGHUP still ends the program, and
  SIGKILL cannot be redirected.
\<close>

datatype os_signal = SIGHUP | SIGINT | SIGQUIT | SIGTERM | SIGKILL

definition shutdown_signals :: "os_signal list" where
  "shutdown_signals = [SIGTERM, SIGINT, SIGQUIT]"

datatype exit = MainReturned | ServeFatal goerror | KilledBy os_signal | Panic string

section \<open>State\<close>

text \<open>Where a turn of \<^verbatim>\<open>periodicSave\<close> is: the snapshot of the maps is taken, the file is created.\<close>

datatype saving = NotSaving | Snapshot MemStorage | Created MemStorage

record process =
  pr_server :: server
  pr_save :: saving
  pr_notified :: bool                 \<comment> \<open>signal.Notify has been called\<close>
  pr_sigchan :: "os_signal option"    \<comment> \<open>the buffer of sigChan\<close>
  pr_woken :: "os_signal option"      \<comment> \<open>what main has received from it\<close>
  pr_exit :: "exit option"

datatype start_error = BadConfig config_error | BadStart goerror

definition server_main :: "dblib \<Rightarrow> keylib \<Rightarrow> golib \<Rightarrow> (bytes \<Rightarrow> ServerJSONConfig option) \<Rightarrow> goerror option \<Rightarrow> filesystem \<Rightarrow> osenv
    \<Rightarrow> string \<Rightarrow> string \<Rightarrow> string \<Rightarrow> string list \<times> (start_error + process)" where
  "server_main D KL L unmarshal zap_error fs env buildVersion buildDate buildCommit =
     (printBuildInfo buildVersion buildDate buildCommit,
      (case Load unmarshal env of
         Inl e \<Rightarrow> Inl (BadConfig e)
       | Inr cfg \<Rightarrow>
          (case start_server D KL L zap_error fs cfg of
             Inl e \<Rightarrow> Inl (BadStart e)
           | Inr s \<Rightarrow> Inr \<lparr>pr_server = s, pr_save = NotSaving, pr_notified = False, pr_sigchan = None,
               pr_woken = None, pr_exit = None\<rparr>)))"

section \<open>Steps\<close>

datatype process_event =
    Work server_event             \<comment> \<open>a step of the running server other than the whole of a save\<close>
  | SaveSnapshot
  | SaveCreate
  | SaveWrite
  | TickerPanic
  | Notify
  | OSSignal os_signal
  | EndWriting exit nat           \<comment> \<open>in the middle of writing the file, after so many bytes\<close>
  | Wake
  | HTTPServeError goerror
  | PProfServeError goerror
  | MainReturn

definition dump_of :: "MemStorage \<Rightarrow> Dump" where
  "dump_of m = \<lparr>Gauges = gauges m, Counters = counters m\<rparr>"

definition save_path :: "process \<Rightarrow> string" where
  "save_path p = sm_FileStoragePath (sm_config (sv_sm (pr_server p)))"

text \<open>The interval that \<^verbatim>\<open>time.NewTicker\<close> gets, a product of 64-bit integers.\<close>

definition ticker_interval :: "process \<Rightarrow> int64" where
  "ticker_interval p = word_of_int (sm_StoreInterval (sm_config (sv_sm (pr_server p)))) * Second"

definition caught :: "process \<Rightarrow> os_signal \<Rightarrow> bool" where
  "caught p g \<longleftrightarrow> pr_notified p \<and> g \<in> set shutdown_signals"

abbreviation set_fs :: "filesystem \<Rightarrow> process \<Rightarrow> process" where
  "set_fs fs p \<equiv> p\<lparr>pr_server := (pr_server p)\<lparr>sv_fs := fs\<rparr>\<rparr>"

text \<open>The store being written: by the periodic save, or by the final one in main.\<close>

definition being_written :: "process \<Rightarrow> MemStorage \<Rightarrow> bool" where
  "being_written p m \<longleftrightarrow> pr_save p = Created m
     \<or> sv_pc (pr_server p) = Stopped \<and> sm_storage (sv_sm (pr_server p)) = InMemory m \<and> save_path p \<noteq> []
       \<and> create_error (sv_fs (pr_server p)) (save_path p) = None"

text \<open>The ends that may come at any moment, and so also while the file is written.\<close>

fun sudden :: "process \<Rightarrow> exit \<Rightarrow> bool" where
  "sudden p (KilledBy g) = (\<not> caught p g)"
| "sudden p (ServeFatal e) = (sv_pc (pr_server p) = Serving)"
| "sudden p x = False"

fun work_allowed :: "process \<Rightarrow> server_event \<Rightarrow> bool" where
  "work_allowed p Tick = False"
| "work_allowed p GoroutineExit = (pr_save p = NotSaving \<and> 0 < sint (ticker_interval p))"
| "work_allowed p (HTTPShutdown e) = (pr_woken p \<noteq> None)"
| "work_allowed p e = True"

inductive process_step :: "golib \<Rightarrow> map_order \<Rightarrow> chimux \<Rightarrow> process \<Rightarrow> process_event \<Rightarrow> process \<Rightarrow> bool" for L ord chi where
  work: "pr_exit p = None \<Longrightarrow> work_allowed p e \<Longrightarrow> server_step L ord chi (pr_server p) e s \<Longrightarrow>
    process_step L ord chi p (Work e) (p\<lparr>pr_server := s\<rparr>)"
| save_snapshot: "pr_exit p = None \<Longrightarrow> pr_save p = NotSaving \<Longrightarrow> 0 < sm_running (sv_sm (pr_server p)) \<Longrightarrow> 0 < sint (ticker_interval p) \<Longrightarrow>
    sm_storage (sv_sm (pr_server p)) = InMemory m \<Longrightarrow> process_step L ord chi p SaveSnapshot (p\<lparr>pr_save := Snapshot m\<rparr>)"
| save_create: "pr_exit p = None \<Longrightarrow> pr_save p = Snapshot m \<Longrightarrow> os_create (save_path p) (sv_fs (pr_server p)) = (err, fs) \<Longrightarrow>
    process_step L ord chi p SaveCreate ((set_fs fs p)\<lparr>pr_save := (if err = None then Created m else NotSaving)\<rparr>)"
| save_write: "pr_exit p = None \<Longrightarrow> pr_save p = Created m \<Longrightarrow>
    fs = (case EncodeDump L (dump_of m) of None \<Rightarrow> sv_fs (pr_server p) | Some b \<Rightarrow> snd (file_write (save_path p) b (sv_fs (pr_server p)))) \<Longrightarrow>
    process_step L ord chi p SaveWrite ((set_fs fs p)\<lparr>pr_save := NotSaving\<rparr>)"
| ticker_panic: "pr_exit p = None \<Longrightarrow> 0 < sm_running (sv_sm (pr_server p)) \<Longrightarrow> sint (ticker_interval p) \<le> 0 \<Longrightarrow>
    process_step L ord chi p TickerPanic (p\<lparr>pr_exit := Some (Panic ''non-positive interval for NewTicker'')\<rparr>)"
| notify: "pr_exit p = None \<Longrightarrow> process_step L ord chi p Notify (p\<lparr>pr_notified := True\<rparr>)"
| signal_caught: "pr_exit p = None \<Longrightarrow> caught p g \<Longrightarrow>
    process_step L ord chi p (OSSignal g) (p\<lparr>pr_sigchan := (case pr_sigchan p of None \<Rightarrow> Some g | Some x \<Rightarrow> Some x)\<rparr>)"
| signal_kills: "pr_exit p = None \<Longrightarrow> sudden p (KilledBy g) \<Longrightarrow> process_step L ord chi p (OSSignal g) (p\<lparr>pr_exit := Some (KilledBy g)\<rparr>)"
| http_error: "pr_exit p = None \<Longrightarrow> sudden p (ServeFatal e) \<Longrightarrow>
    process_step L ord chi p (HTTPServeError e) (p\<lparr>pr_exit := Some (ServeFatal e)\<rparr>)"
| end_writing: "pr_exit p = None \<Longrightarrow> sudden p x \<Longrightarrow> being_written p m \<Longrightarrow>
    left = (case EncodeDump L (dump_of m) of None \<Rightarrow> [] | Some b \<Rightarrow> take k b) \<Longrightarrow>
    process_step L ord chi p (EndWriting x k)
      ((set_fs ((sv_fs (pr_server p))\<lparr>files := (files (sv_fs (pr_server p)))(save_path p \<mapsto> left)\<rparr>) p)\<lparr>pr_exit := Some x\<rparr>)"
| wake: "pr_exit p = None \<Longrightarrow> pr_woken p = None \<Longrightarrow> pr_sigchan p = Some g \<Longrightarrow>
    process_step L ord chi p Wake (p\<lparr>pr_sigchan := None, pr_woken := Some g\<rparr>)"
| pprof_error: "pr_exit p = None \<Longrightarrow> process_step L ord chi p (PProfServeError e) p"
| main_return: "pr_exit p = None \<Longrightarrow> server_finished (pr_server p) \<Longrightarrow>
    process_step L ord chi p MainReturn
      (p\<lparr>pr_server := (pr_server p)\<lparr>sv_sm := (sv_sm (pr_server p))\<lparr>sm_storage := snd (close_store (sm_storage (sv_sm (pr_server p))))\<rparr>\<rparr>,
         pr_exit := Some MainReturned\<rparr>)"

section \<open>The invariant\<close>

definition process_inv :: "golib \<Rightarrow> process \<Rightarrow> bool" where
  "process_inv L p \<longleftrightarrow> stop_inv (pr_server p) \<and> saved L (pr_server p)
     \<and> (pr_save p \<noteq> NotSaving \<longrightarrow> 0 < sm_running (sv_sm (pr_server p)))
     \<and> (sv_pc (pr_server p) \<noteq> Serving \<longrightarrow> pr_woken p \<noteq> None)
     \<and> (\<forall>g. pr_sigchan p = Some g \<or> pr_woken p = Some g \<longrightarrow> g \<in> set shutdown_signals)
     \<and> (pr_exit p = Some MainReturned \<longrightarrow> server_finished (pr_server p))"

lemma stop_inv_finished: "stop_inv s \<Longrightarrow> server_finished s \<Longrightarrow> sm_running (sv_sm s) = 0"
  by (auto simp: stop_inv_def server_finished_def split: server_pc.splits)

lemma stop_inv_stopped: "stop_inv s \<Longrightarrow> sv_pc s = Stopped \<Longrightarrow> sm_running (sv_sm s) = 0"
  by (simp add: stop_inv_def)

lemma fs_invariants [simp]:
  "stop_inv (s\<lparr>sv_fs := fs\<rparr>) = stop_inv s" "server_finished (s\<lparr>sv_fs := fs\<rparr>) = server_finished s"
  by (cases "sv_pc s"; simp add: stop_inv_def server_finished_def)+

lemma store_invariants:
  "stop_inv (s\<lparr>sv_sm := (sv_sm s)\<lparr>sm_storage := st\<rparr>\<rparr>) = stop_inv s"
  "server_finished (s\<lparr>sv_sm := (sv_sm s)\<lparr>sm_storage := st\<rparr>\<rparr>) = server_finished s"
  by (cases "sv_pc s"; simp add: stop_inv_def server_finished_def)+

lemma saved_running: "stop_inv s \<Longrightarrow> 0 < sm_running (sv_sm s) \<Longrightarrow> saved L (s\<lparr>sv_fs := fs\<rparr>)"
  using stop_inv_finished [of s] by (auto simp: saved_def server_finished_def)

lemma saved_stopped: "sv_pc s = Stopped \<Longrightarrow> saved L (s\<lparr>sv_fs := fs\<rparr>)"
  by (simp add: saved_def)

lemma server_step_pc:
  assumes "server_step L ord chi s e t" and "sv_pc s = Serving" and "sv_pc t \<noteq> Serving"
  shows "\<exists>err. e = HTTPShutdown err"
  using assms by cases auto

lemma server_step_running:
  assumes "server_step L ord chi s e t" and "sm_running (sv_sm t) < sm_running (sv_sm s)"
  shows "e = GoroutineExit"
  using assms by cases (auto simp: SM_Shutdown_keeps)

lemma close_store_memory [simp]: "in_memory (snd (close_store st)) = in_memory st"
  by (cases st) (simp_all add: close_store_def)

lemma process_step_inv:
  assumes "process_step L ord chi p e q" and "process_inv L p"
  shows "process_inv L q"
  using assms(1)
proof cases
  case (work e' s)
  note inv = assms(2) [unfolded process_inv_def]
  have "stop_inv s" "saved L s"
    using server_step_inv [OF work(5)] server_step_saved [OF work(5)] inv by blast+
  moreover have "pr_save p \<noteq> NotSaving \<longrightarrow> 0 < sm_running (sv_sm s)"
    using server_step_running [OF work(5)] work(4) inv by fastforce
  moreover have "sv_pc s \<noteq> Serving \<longrightarrow> pr_woken p \<noteq> None"
    using server_step_pc [OF work(5)] work(4) inv by fastforce
  ultimately show ?thesis using inv work(2,3) by (simp add: process_inv_def)
next
  case main_return
  have "saved L (pr_server q)"
    using assms(2) main_return(2) by (cases "sm_storage (sv_sm (pr_server p))") (auto simp: process_inv_def saved_def close_store_def)
  then show ?thesis using assms(2) main_return by (simp add: process_inv_def store_invariants)
next
  case (end_writing x m left k)
  then show ?thesis using assms(2) saved_running saved_stopped
    by (cases x) (auto simp: process_inv_def being_written_def)
qed (use assms(2) saved_running in \<open>auto simp: process_inv_def caught_def split: option.splits if_splits\<close>)

section \<open>What is in the file\<close>

text \<open>
  The texts that can be found in the file: what was there before, nothing, or the whole or the
  beginning of the text of a store that the server had at some time.
\<close>

definition leftovers :: "golib \<Rightarrow> bytes option \<Rightarrow> MemStorage set \<Rightarrow> bytes option set" where
  "leftovers L f0 S = {f0, Some []} \<union> {Some (take k b) | m b k. m \<in> S \<and> EncodeDump L (dump_of m) = Some b}"

definition memories :: "process \<Rightarrow> MemStorage set" where
  "memories p = {m. sm_storage (sv_sm (pr_server p)) = InMemory m}"

definition file_inv :: "golib \<Rightarrow> string \<Rightarrow> bytes option \<Rightarrow> MemStorage set \<Rightarrow> process \<Rightarrow> bool" where
  "file_inv L path f0 S p \<longleftrightarrow> process_inv L p \<and> save_path p = path \<and> memories p \<subseteq> S
     \<and> files (sv_fs (pr_server p)) path \<in> leftovers L f0 S
     \<and> (\<forall>m. pr_save p = Snapshot m \<or> pr_save p = Created m \<longrightarrow> m \<in> S)
     \<and> (\<forall>m. pr_save p = Created m \<longrightarrow> pr_exit p = None \<longrightarrow> files (sv_fs (pr_server p)) path = Some [])"

lemma leftovers_mono: "S \<subseteq> T \<Longrightarrow> leftovers L f0 S \<subseteq> leftovers L f0 T"
  unfolding leftovers_def by blast

lemma leftovers_old: "f0 \<in> leftovers L f0 S" "Some [] \<in> leftovers L f0 S"
  by (simp_all add: leftovers_def)

lemma leftovers_take: "m \<in> S \<Longrightarrow> EncodeDump L (dump_of m) = Some b \<Longrightarrow> Some (take k b) \<in> leftovers L f0 S"
  unfolding leftovers_def by blast

lemma leftovers_all: "m \<in> S \<Longrightarrow> EncodeDump L (dump_of m) = Some b \<Longrightarrow> Some b \<in> leftovers L f0 S"
  using leftovers_take [of m S L b "length b"] by simp

lemma file_write_leftovers:
  assumes "m \<in> S" and "EncodeDump L (dump_of m) = Some b" and "files fs f = Some []"
  shows "files (snd (file_write f b fs)) f \<in> leftovers L f0 S"
  using assms leftovers_take [of m S L b] leftovers_all [of m S L b]
  by (auto simp: file_write_def split: option.splits)

lemma save_leftovers:
  assumes "m \<in> S" and "files fs f \<in> leftovers L f0 S"
  shows "files (snd (Mem_SaveToFile L f m fs)) f \<in> leftovers L f0 S"
proof (cases "create_error fs f")
  case (Some e)
  then show ?thesis using assms(2) by (simp add: Mem_SaveToFile_def os_create_def Let_def)
next
  case None
  let ?fs = "fs\<lparr>files := (files fs)(f \<mapsto> [])\<rparr>"
  have "files (snd (Mem_SaveToFile L f m fs)) f = (case EncodeDump L (dump_of m) of None \<Rightarrow> Some [] | Some b \<Rightarrow> files (snd (file_write f b ?fs)) f)"
    using None by (auto simp: Mem_SaveToFile_def os_create_def dump_of_def Let_def split: option.splits prod.splits)
  then show ?thesis using file_write_leftovers [OF assms(1), of L _ ?fs f f0]
    by (cases "EncodeDump L (dump_of m)") (simp_all add: leftovers_old)
qed

lemma server_step_config: "server_step L ord chi s e t \<Longrightarrow> sm_config (sv_sm t) = sm_config (sv_sm s)"
  by (cases rule: server_step.cases) (auto simp: SM_Shutdown_keeps)

lemma server_step_file:
  assumes "server_step L ord chi s e t" and "e \<noteq> Tick" and "files (sv_fs s) f \<in> leftovers L f0 S"
    and "f = sm_FileStoragePath (sm_config (sv_sm s))" and "\<And>m. sm_storage (sv_sm s) = InMemory m \<Longrightarrow> m \<in> S"
  shows "files (sv_fs t) f \<in> leftovers L f0 S"
  using assms(1)
proof cases
  case (final_save err sm' fs')
  show ?thesis
  proof (cases "sm_storage (sv_sm s)")
    case (InMemory m)
    have "fs' = sv_fs s \<or> fs' = snd (Mem_SaveToFile L f m (sv_fs s))"
      using SM_Shutdown_memory(2) [OF final_save(4) InMemory] final_save(4) InMemory assms(4)
      by (cases "f = []") (auto simp: SM_Shutdown_def)
    then show ?thesis using final_save(2) save_leftovers [of m S _ f L f0] assms(3,5) InMemory by auto
  qed (use SM_Shutdown_database [OF final_save(4)] final_save(2) assms(3) in simp)
qed (use assms(2,3) in simp_all)

lemma server_step_fs:
  assumes "server_step L ord chi s e t" and "e \<noteq> Tick" and "0 < sm_running (sv_sm s)" and "stop_inv s"
  shows "sv_fs t = sv_fs s"
  using assms(1) by cases (use assms(2-4) stop_inv_stopped [of s] in auto)

lemma process_step_file:
  assumes "process_step L ord chi p e q" and "file_inv L path f0 S p"
  shows "file_inv L path f0 (S \<union> memories q) q"
proof -
  note inv = assms(2) [unfolded file_inv_def]
  have q: "process_inv L q" using process_step_inv [OF assms(1)] inv by blast
  have kept: "files (sv_fs (pr_server p)) path \<in> leftovers L f0 (S \<union> memories q)"
    using inv leftovers_mono [of S "S \<union> memories q"] by blast
  note goal = file_inv_def
  show ?thesis using assms(1)
  proof cases
    case (work e' s)
    have "e' \<noteq> Tick" using work(4) by auto
    have "files (sv_fs s) path \<in> leftovers L f0 (S \<union> memories q)"
      by (rule server_step_file [OF work(5) \<open>e' \<noteq> Tick\<close> kept]) (use inv in \<open>auto simp: save_path_def memories_def\<close>)
    moreover have "sv_fs s = sv_fs (pr_server p)" if "pr_save p \<noteq> NotSaving"
      using server_step_fs [OF work(5) \<open>e' \<noteq> Tick\<close>] inv that by (simp add: process_inv_def)
    ultimately show ?thesis using inv q server_step_config [OF work(5)] work(2)
      by (auto simp: goal save_path_def)
  next
    case (save_create m err fs)
    then show ?thesis using inv q kept by (auto simp: goal save_path_def memories_def os_create_def leftovers_old split: option.splits)
  next
    case (save_write m fs)
    then show ?thesis using inv q kept file_write_leftovers [of m "S \<union> memories q" L _ _ path f0]
      by (auto simp: goal save_path_def memories_def split: option.splits)
  next
    case (end_writing x m left k)
    then have "m \<in> S" using inv by (auto simp: being_written_def memories_def)
    then have "Some left \<in> leftovers L f0 (S \<union> memories q)"
      using end_writing(6) by (auto simp: leftovers_old intro: leftovers_take split: option.splits)
    then show ?thesis using inv q end_writing(2) by (auto simp: goal save_path_def memories_def)
  next
    case main_return
    then show ?thesis using inv q kept by (auto simp: goal save_path_def memories_def)
  qed (use inv q kept in \<open>auto simp: goal save_path_def memories_def\<close>)
qed

lemma file_inv_mono:
  assumes "file_inv L path f0 S p" and "S \<subseteq> T"
  shows "file_inv L path f0 T p"
  using assms leftovers_mono [OF assms(2), of L f0] by (auto simp: file_inv_def)

interpretation contents: recording "process_step L ord chi" memories "file_inv L path f0" for L ord chi path f0
  using process_step_file file_inv_mono by unfold_locales blast+

section \<open>The ticker\<close>

lemma file_open_error [simp]:
  "os_create f fs = (err, fs') \<Longrightarrow> open_error fs' = open_error fs" "open_error (snd (file_write f b fs)) = open_error fs"
  by (auto simp: os_create_def file_write_def split: option.splits)

lemma process_step_open_error:
  assumes "process_step L ord chi p e q"
  shows "open_error (sv_fs (pr_server q)) = open_error (sv_fs (pr_server p))"
  using assms
proof cases
  case (work e' s)
  from work(5) have "open_error (sv_fs s) = open_error (sv_fs (pr_server p))"
    by cases (simp_all add: periodicSave_tick_def SM_Shutdown_open_error)
  then show ?thesis using work by simp
qed (auto split: option.splits)

lemma process_step_config:
  assumes "process_step L ord chi p e q"
  shows "sm_config (sv_sm (pr_server q)) = sm_config (sv_sm (pr_server p))"
  using assms by cases (use server_step_config in auto)

definition ticking :: "process \<Rightarrow> bool" where
  "ticking p \<longleftrightarrow> 0 < sint (ticker_interval p) \<and> (\<forall>m. pr_exit p \<noteq> Some (Panic m))"

lemma process_step_ticking:
  assumes "process_step L ord chi p e q" and "ticking p"
  shows "ticking q"
proof -
  have "ticker_interval q = ticker_interval p" using process_step_config [OF assms(1)] by (simp add: ticker_interval_def)
  with assms show ?thesis by (cases rule: process_step.cases) (auto simp: ticking_def elim: sudden.elims)
qed

interpretation ticks: step_invariant "process_step L ord chi" ticking for L ord chi
  using process_step_ticking by unfold_locales blast

section \<open>Returning\<close>

fun orderly_event :: "process_event \<Rightarrow> bool" where
  "orderly_event (Work e) = shutdown_event e"
| "orderly_event (OSSignal g) = (g = SIGTERM)"
| "orderly_event e = (e \<in> {Notify, Wake, SaveCreate, SaveWrite, MainReturn})"

definition calm_step :: "golib \<Rightarrow> map_order \<Rightarrow> chimux \<Rightarrow> process \<Rightarrow> process_event \<Rightarrow> process \<Rightarrow> bool" where
  "calm_step L ord chi p e q \<longleftrightarrow> process_step L ord chi p e q \<and> pr_exit q \<in> {None, Some MainReturned}"

definition calm :: "golib \<Rightarrow> process \<Rightarrow> bool" where
  "calm L p \<longleftrightarrow> process_inv L p \<and> ticking p \<and> pr_exit p \<in> {None, Some MainReturned}"

definition return_work :: "process \<Rightarrow> nat" where
  "return_work p = (if pr_exit p \<noteq> None then 0 else
     1 + shutdown_work (pr_server p) + (case pr_save p of NotSaving \<Rightarrow> 0 | Snapshot m \<Rightarrow> 2 | Created m \<Rightarrow> 1)
       + (if pr_notified p then 0 else 1) + (if pr_woken p \<noteq> None then 0 else if pr_sigchan p \<noteq> None then 1 else 2))"

lemma stop_inv_work: "stop_inv s \<Longrightarrow> shutdown_work s \<le> 6"
  by (auto simp: shutdown_work_def stop_inv_def split: server_pc.splits)

lemma process_inv_stop: "process_inv L p \<Longrightarrow> stop_inv (pr_server p)"
  by (simp add: process_inv_def)

lemma return_progress:
  assumes "calm L p" and "pr_exit p \<noteq> Some MainReturned"
  shows "\<exists>e q. orderly_event e \<and> calm_step L ord chi p e q \<and> return_work q < return_work p"
proof -
  have alive: "pr_exit p = None" and inv: "process_inv L p" and tick: "0 < sint (ticker_interval p)"
    using assms by (auto simp: calm_def ticking_def)
  have use: ?thesis if "process_step L ord chi p e q" "orderly_event e" "pr_exit q \<in> {None, Some MainReturned}" "return_work q < return_work p" for e q
    using that by (auto simp: calm_step_def)
  consider "\<not> pr_notified p" | "pr_notified p" "pr_woken p = None" "pr_sigchan p = None"
    | g where "pr_woken p = None" "pr_sigchan p = Some g" | m where "pr_save p = Snapshot m" | m where "pr_save p = Created m"
    | "server_finished (pr_server p)" | g where "pr_woken p = Some g" "pr_save p = NotSaving" "\<not> server_finished (pr_server p)"
    by (cases "pr_save p"; cases "pr_sigchan p"; cases "pr_woken p") auto
  then show ?thesis
  proof cases
    case 1
    then show ?thesis by (intro use [OF process_step.notify [OF alive]]) (simp_all add: alive return_work_def)
  next
    case 2
    then have "caught p SIGTERM" by (simp add: caught_def shutdown_signals_def)
    from use [OF process_step.signal_caught [OF alive this]] 2 show ?thesis by (simp add: alive return_work_def)
  next
    case (3 g)
    from use [OF process_step.wake [OF alive 3]] 3 show ?thesis by (simp add: alive return_work_def)
  next
    case (4 m)
    obtain err fs where "os_create (save_path p) (sv_fs (pr_server p)) = (err, fs)" by fastforce
    from use [OF process_step.save_create [OF alive 4 this]] 4 show ?thesis by (simp add: alive return_work_def shutdown_work_def)
  next
    case (5 m)
    from use [OF process_step.save_write [OF alive 5 refl]] 5 show ?thesis by (simp add: alive return_work_def shutdown_work_def)
  next
    case 6
    from use [OF process_step.main_return [OF alive 6]] show ?thesis by (simp add: alive return_work_def)
  next
    case (7 g)
    obtain e t where e: "shutdown_event e" "server_step L ord chi (pr_server p) e t" "shutdown_work t < shutdown_work (pr_server p)"
      using shutdown_progress [OF process_inv_stop [OF inv] 7(3)] by blast
    have "work_allowed p e" using e(1) 7 tick by (cases e) simp_all
    from use [OF process_step.work [OF alive this e(2)]] e(1,3) 7 show ?thesis by (simp add: alive return_work_def)
  qed
qed

lemma calm_step_keeps: "calm L p \<Longrightarrow> calm_step L ord chi p e q \<Longrightarrow> calm L q"
  using process_step_inv process_step_ticking by (auto simp: calm_def calm_step_def)

interpretation returning: draining "calm_step L ord chi" "calm L" "\<lambda>p. pr_exit p = Some MainReturned" return_work orderly_event
  for L ord chi
  using calm_step_keeps return_progress by unfold_locales blast+

interpretation proc: step_invariant "process_step L ord chi" "process_inv L" for L ord chi
  using process_step_inv by unfold_locales blast

lemma calm_run: "run (calm_step L ord chi) p es q \<Longrightarrow> run (process_step L ord chi) p es q"
  by (induction rule: run.induct) (auto simp: calm_step_def intro: run_cons)

section \<open>Starting\<close>

lemma server_main_start:
  assumes "snd (server_main D KL L unmarshal z fs env v d c) = Inr p"
  obtains cfg where "Load unmarshal env = Inr cfg" and "start_server D KL L z fs cfg = Inr (pr_server p)"
    and "pr_save p = NotSaving" "pr_exit p = None" "pr_woken p = None" "pr_sigchan p = None" "\<not> pr_notified p"
  using assms by (auto simp: server_main_def split: sum.splits)

lemma start_server_interval:
  assumes "start_server D KL L z fs cfg = Inr s"
  shows "sm_config (sv_sm s) = \<lparr>sm_StoreInterval = StoreInterval cfg, sm_FileStoragePath = FileStoragePath cfg, sm_Restore = Restore cfg\<rparr>"
proof -
  from start_server_sm [OF assms] obtain st where "sv_sm s = setupStorageManager L fs st cfg" by blast
  then show ?thesis by (simp add: setupStorageManager_fields)
qed

lemma server_main_calm:
  assumes "snd (server_main D KL L unmarshal z fs env v d c) = Inr p"
  shows "process_inv L p" "ticking p"
proof -
  obtain cfg where l: "Load unmarshal env = Inr cfg" and s: "start_server D KL L z fs cfg = Inr (pr_server p)"
    and f: "pr_save p = NotSaving" "pr_exit p = None" "pr_woken p = None" "pr_sigchan p = None" "\<not> pr_notified p"
    using assms by (rule server_main_start)
  show "process_inv L p" using start_server_inv [OF s] f by (simp add: process_inv_def)
  have iv: "0 < StoreInterval cfg" "StoreInterval cfg \<le> 9223372036" using load_store_interval_positive [OF l] by simp_all
  then show "ticking p" using seconds_positive f by (simp add: ticking_def ticker_interval_def start_server_interval [OF s])
qed

section \<open>Restarting on what is left\<close>

text \<open>The documented behaviour of the JSON decoder on the beginning of an encoded object.\<close>

definition dump_cuts :: "golib \<Rightarrow> bool" where
  "dump_cuts L \<longleftrightarrow> DecodeDump L [] = None \<and> (\<forall>d b k. EncodeDump L d = Some b \<longrightarrow> DecodeDump L (take k b) \<in> {None, Some d})"

lemma dump_cutsD:
  assumes "dump_cuts L" and "EncodeDump L d = Some b"
  shows "DecodeDump L (take k b) = None \<or> DecodeDump L (take k b) = Some d"
proof -
  have "DecodeDump L (take k b) \<in> {None, Some d}" using assms unfolding dump_cuts_def by metis
  then show ?thesis by simp
qed

definition restored :: "golib \<Rightarrow> bytes option \<Rightarrow> MemStorage" where
  "restored L f = (case f of None \<Rightarrow> NewMemStorage | Some b \<Rightarrow>
     (case DecodeDump L b of None \<Rightarrow> NewMemStorage | Some d \<Rightarrow> \<lparr>gauges = Gauges d, counters = Counters d\<rparr>))"

lemma load_restored: "open_error fs f = None \<Longrightarrow> snd (Mem_LoadFromFile L f fs NewMemStorage) = restored L (files fs f)"
  by (simp add: Mem_LoadFromFile_def os_open_def restored_def NewMemStorage_def split: option.splits)

lemma load_restored_again:
  "open_error fs f = None \<Longrightarrow> snd (Mem_LoadFromFile L f fs (restored L (files fs f))) = restored L (files fs f)"
  by (simp add: Mem_LoadFromFile_def os_open_def restored_def split: option.splits)

lemma start_server_restored:
  assumes "start_server D KL L z fs cfg = Inr s" and "DatabaseDSN cfg = []" and "FileStoragePath cfg \<noteq> []" and "Restore cfg"
    and "open_error fs (FileStoragePath cfg) = None"
  shows "sm_storage (sv_sm s) = InMemory (restored L (files fs (FileStoragePath cfg)))"
proof -
  from start_server_sm [OF assms(1)] obtain st
    where st: "initializeStorage D L fs cfg = Inr st" and sm: "sv_sm s = setupStorageManager L fs st cfg" by blast
  have "st = InMemory (restored L (files fs (FileStoragePath cfg)))"
    using st assms(2-5) by (simp add: initializeStorage_def load_restored split: prod.splits)
  then show ?thesis using assms(4,5) by (simp add: sm setupStorageManager_fields load_restored_again split: prod.splits)
qed

lemma restored_leftovers:
  assumes "f \<in> leftovers L f0 S" and "dump_cuts L"
  shows "restored L f \<in> {NewMemStorage, restored L f0} \<union> S"
proof -
  have "restored L (Some (take k b)) = m" if "EncodeDump L (dump_of m) = Some b" "DecodeDump L (take k b) \<noteq> None" for m b k
  proof -
    have "DecodeDump L (take k b) = Some (dump_of m)" using dump_cutsD [OF assms(2) that(1), of k] that(2) by simp
    then show ?thesis by (simp add: restored_def dump_of_def)
  qed
  moreover have "restored L (Some b) = NewMemStorage" if "DecodeDump L b = None" for b using that by (simp add: restored_def)
  ultimately show ?thesis using assms unfolding leftovers_def dump_cuts_def by blast
qed

section \<open>A process to exercise the theorems on\<close>

inductive_simps process_step_iff:
  "process_step L ord chi p (Work e) q" "process_step L ord chi p SaveSnapshot q" "process_step L ord chi p SaveCreate q"
  "process_step L ord chi p Notify q" "process_step L ord chi p (OSSignal g) q" "process_step L ord chi p Wake q"
  "process_step L ord chi p MainReturn q"

definition sample_process :: process where
  "sample_process = \<lparr>pr_server = sample_server, pr_save = NotSaving, pr_notified = False, pr_sigchan = None, pr_woken = None, pr_exit = None\<rparr>"

definition sample_server_env :: osenv where
  "sample_server_env = sample_env [''server'', ''-f=m''] []"

lemma sample_load_config: "Load (\<lambda>b. None) sample_server_env = Inr sample_config"
proof -
  have flags: "parseServerFlags sample_server_env = Inr (default_server_flags\<lparr>fileStoragePath := ''m''\<rparr>)"
    by (simp add: sample_server_env_def parseServerFlags_def sample_env_def is_test_binary_def split_flag_def server_flag_kinds_def
        flag_set_def set_server_flag_def)
  show ?thesis
    unfolding Load_with flags load_with_def loadServerJSONConfig_def
    by (simp add: sample_server_env_def sample_env_def default_server_flags_def default_addr_def default_file_def stringPtr_def unless_set_def
        applyServerEnvironmentVariables_def applyServerFlags_def ApplyToServerConfig_def buildServerConfig_def
        validateServerConfig_def set_if_def empty_server_json_def sample_config_def)
qed

lemma sample_main: "snd (server_main sample_dblib sample_keylib sample_lib (\<lambda>b. None) None sample_disk sample_server_env v d c) = Inr sample_process"
  by (simp add: server_main_def sample_load_config sample_start sample_process_def)

lemma sample_ticker: "ticker_interval sample_process = 300000000000"
  by (simp add: ticker_interval_def sample_process_def sample_server_def Second_def)

text \<open>A run that ends well, and one that is killed.\<close>

lemma sample_process_run:
  "run (process_step sample_lib id sample_chi) sample_process
     ([Notify, OSSignal SIGTERM, Wake] @ map Work [HTTPShutdown None, PProfShutdown None, StopSignal, GoroutineExit, StopReturn, FinalSave] @ [MainReturn])
     (sample_process\<lparr>pr_server := sample_ended, pr_notified := True, pr_woken := Some SIGTERM, pr_exit := Some MainReturned\<rparr>)"
  using sample_ticker by (simp add: run_cons_iff process_step_iff server_step_iff sample_process_def sample_server_def sample_ended_def SM_Stop_signal_def
      SM_Stop_waits_def SM_Shutdown_def sample_save caught_def shutdown_signals_def ticker_interval_def close_store_def server_finished_def)

lemma sample_killed: "run (process_step sample_lib id sample_chi) sample_process [OSSignal SIGKILL] (sample_process\<lparr>pr_exit := Some (KilledBy SIGKILL)\<rparr>)"
  by (rule run_one [of "process_step sample_lib id sample_chi", OF process_step.signal_kills])
    (simp_all add: sample_process_def caught_def shutdown_signals_def)

lemma sample_dump_cuts: "dump_cuts sample_lib"
  by (auto simp: dump_cuts_def sample_lib_def sample_dump_text_def split: if_splits)

text \<open>A kill between the creation of the file and the writing leaves nothing, whatever was saved before.\<close>

lemma killed_while_saving:
  assumes "pr_exit p = None" and "pr_save p = NotSaving" and "ticking p" and "0 < sm_running (sv_sm (pr_server p))"
    and "sm_storage (sv_sm (pr_server p)) = InMemory m" and "create_error (sv_fs (pr_server p)) (save_path p) = None"
  shows "\<exists>q. run (process_step L ord chi) p [SaveSnapshot, SaveCreate, OSSignal SIGKILL] q
    \<and> pr_exit q = Some (KilledBy SIGKILL) \<and> files (sv_fs (pr_server q)) (save_path q) = Some []"
proof -
  let ?fs = "(sv_fs (pr_server p))\<lparr>files := (files (sv_fs (pr_server p)))(save_path p \<mapsto> [])\<rparr>"
  let ?p1 = "p\<lparr>pr_save := Snapshot m\<rparr>" and ?p2 = "(set_fs ?fs p)\<lparr>pr_save := Created m\<rparr>"
  have path: "save_path ?p1 = save_path p" "save_path ?p2 = save_path p" by (simp_all add: save_path_def)
  have 1: "process_step L ord chi p SaveSnapshot ?p1"
    by (rule process_step.save_snapshot) (use assms in \<open>simp_all add: ticking_def\<close>)
  have "os_create (save_path ?p1) (sv_fs (pr_server ?p1)) = (None, ?fs)" using assms(6) path by (simp add: os_create_def)
  from process_step.save_create [OF _ _ this, of m L ord chi] have 2: "process_step L ord chi ?p1 SaveCreate ?p2"
    using assms(1) by simp
  have 3: "process_step L ord chi ?p2 (OSSignal SIGKILL) (?p2\<lparr>pr_exit := Some (KilledBy SIGKILL)\<rparr>)"
    by (rule process_step.signal_kills) (simp_all add: assms(1) caught_def shutdown_signals_def)
  from run_cons [OF 1 run_cons [OF 2 run_one [of "process_step L ord chi", OF 3]]] show ?thesis
    by (intro exI conjI) (assumption, simp_all add: save_path_def)
qed

section \<open>Properties\<close>

text \<open>
  C16: main can always return. From every moment of a server's life at which the process has
  not ended, at most twelve steps lead to the return of main, among them no request, no new
  save and at most the signal SIGTERM from outside.
\<close>

theorem main_can_return:
  assumes "snd (server_main D KL L unmarshal z fs env v d c) = Inr p0" and "run (process_step L ord chi) p0 es p" and "pr_exit p = None"
  shows "\<exists>fin q. run (process_step L ord chi) p fin q \<and> pr_exit q = Some MainReturned \<and> list_all orderly_event fin \<and> length fin \<le> 12"
proof -
  have inv: "process_inv L p" "ticking p"
    using proc.run_keeps [OF assms(2)] ticks.run_keeps [OF assms(2)] server_main_calm [OF assms(1)] by blast+
  then have "shutdown_work (pr_server p) \<le> 6" using stop_inv_work process_inv_stop by blast
  then have "return_work p \<le> 12" by (simp add: return_work_def split: saving.splits)
  moreover have "calm L p" using inv assms(3) by (simp add: calm_def)
  ultimately show ?thesis using returning.can_finish [of L p ord chi] calm_run by (meson order_trans)
qed

theorem main_can_return_witness:
  "\<exists>fin q. run (process_step sample_lib id sample_chi) sample_process fin q \<and> pr_exit q = Some MainReturned
    \<and> list_all orderly_event fin \<and> length fin \<le> 12"
  by (rule main_can_return [OF sample_main [of "[]" "[]" "[]"] run_nil]) (simp add: sample_process_def)

text \<open>
  C38: the server never panics for its ticker, because the store interval of a configuration
  that Load accepts is positive and its nanoseconds fit in 64 bits.
\<close>

theorem main_never_panics:
  assumes "snd (server_main D KL L unmarshal z fs env v d c) = Inr p0" and "run (process_step L ord chi) p0 es p"
  shows "pr_exit p \<noteq> Some (Panic m)"
  using ticks.run_keeps [OF assms(2)] server_main_calm(2) [OF assms(1)] by (simp add: ticking_def)

theorem main_never_panics_witness:
  "pr_exit (sample_process\<lparr>pr_server := sample_ended, pr_notified := True, pr_woken := Some SIGTERM, pr_exit := Some MainReturned\<rparr>)
    \<noteq> Some (Panic ''non-positive interval for NewTicker'')"
  by (rule main_never_panics [OF sample_main [of "[]" "[]" "[]"] sample_process_run])





end
