(* ===== verification/ExitCheck.thy ===== *)
theory ExitCheck
  imports Main
begin

text \<open>
  \<^verbatim>\<open>cmd/staticlint\<close>: the analyzer that forbids calls of os.Exit in the function main of package main,
  and the list of analyzers its main hands to multichecker. The syntax tree has the node kinds
  the analyzer looks at; every other kind is \<^verbatim>\<open>Other\<close> with its positions and children; names that are never looked at as
  nodes are text. The type
  information is a parameter: for the position of a use of an identifier, the path of the package
  that \<^verbatim>\<open>obj.Pkg()\<close> gives, if there is an object with a package.
\<close>

section \<open>Syntax trees\<close>

datatype node =
    CallExpr node "node list"
  | SelectorExpr node string
  | Ident nat string
  | FuncDecl nat nat string "node list"   \<comment> \<open>Pos, End, name, the parts\<close>
  | Other nat nat "node list"

fun Pos :: "node \<Rightarrow> nat" where
  "Pos (CallExpr f args) = Pos f"
| "Pos (SelectorExpr x sel) = Pos x"
| "Pos (Ident p n) = p"
| "Pos (FuncDecl p e n parts) = p"
| "Pos (Other p e parts) = p"

record ast_file =
  file_Name :: string
  Decls :: "node list"

text \<open>\<^verbatim>\<open>ast.Inspect\<close> with a function that always returns true: every node, parents first.\<close>

fun inspect :: "node \<Rightarrow> node list" where
  "inspect (CallExpr f args) = CallExpr f args # inspect f @ concat (map inspect args)"
| "inspect (SelectorExpr x sel) = SelectorExpr x sel # inspect x"
| "inspect (Ident p n) = [Ident p n]"
| "inspect (FuncDecl p e n parts) = FuncDecl p e n parts # concat (map inspect parts)"
| "inspect (Other p e parts) = Other p e parts # concat (map inspect parts)"

section \<open>The analyzer\<close>

type_synonym type_info = "nat \<Rightarrow> string option"

fun isOsExitCall :: "type_info \<Rightarrow> node \<Rightarrow> bool" where
  "isOsExitCall uses (CallExpr (SelectorExpr (Ident p n) sel) args) =
     (if uses p = Some ''os'' \<and> sel = ''Exit'' then True else n = ''os'' \<and> sel = ''Exit'')"
| "isOsExitCall uses c = False"

fun covers :: "nat \<Rightarrow> node \<Rightarrow> bool" where
  "covers callPos (FuncDecl p e n parts) = (n = ''main'' \<and> p \<le> callPos \<and> callPos \<le> e)"
| "covers callPos d = False"

definition isInMainFunction :: "ast_file \<Rightarrow> node \<Rightarrow> bool" where
  "isInMainFunction f call = list_ex (covers (Pos call)) (Decls f)"

text \<open>The positions of the diagnostics of one file, and of a pass over several.\<close>

definition run_file :: "type_info \<Rightarrow> ast_file \<Rightarrow> nat list" where
  "run_file uses f = (if file_Name f \<noteq> ''main'' then []
     else map Pos (filter (\<lambda>n. isOsExitCall uses n \<and> isInMainFunction f n) (concat (map inspect (Decls f)))))"

definition exitcheck_run :: "type_info \<Rightarrow> ast_file list \<Rightarrow> nat list" where
  "exitcheck_run uses fs = concat (map (run_file uses) fs)"

text \<open>The analyzers of main, by name: its own, those of x/tools, and three classes of staticcheck.\<close>

definition staticlint_main :: "string list \<Rightarrow> string list" where
  "staticlint_main staticcheck =
     [''exitcheck'', ''printf'', ''shadow'', ''shift'', ''structtag'', ''unreachable'']
     @ filter (\<lambda>n. 2 \<le> length n \<and> take 2 n = ''SA'') staticcheck
     @ filter (\<lambda>n. 2 \<le> length n \<and> (take 2 n = ''S1'' \<or> take 2 n = ''ST'')) staticcheck"

section \<open>What it should report\<close>

fun is_main :: "node \<Rightarrow> bool" where
  "is_main (FuncDecl p e n parts) = (n = ''main'')"
| "is_main d = False"

definition exit_calls_of_main :: "type_info \<Rightarrow> ast_file \<Rightarrow> nat list" where
  "exit_calls_of_main uses f = (if file_Name f \<noteq> ''main'' then []
     else map Pos (filter (isOsExitCall uses) (concat (map inspect (filter is_main (Decls f))))))"

text \<open>The parser gives a declaration a range that holds its nodes, and the ranges follow one another.\<close>

fun End :: "node \<Rightarrow> nat" where
  "End (FuncDecl p e n parts) = e"
| "End (Other p e parts) = e"
| "End d = Pos d"

definition well_positioned :: "ast_file \<Rightarrow> bool" where
  "well_positioned f \<longleftrightarrow> list_all (\<lambda>d. list_all (\<lambda>n. Pos d \<le> Pos n \<and> Pos n \<le> End d) (inspect d)) (Decls f)
     \<and> sorted_wrt (\<lambda>d d'. End d < Pos d') (Decls f)"

lemma sorted_wrt_pair: "sorted_wrt R xs \<Longrightarrow> x \<in> set xs \<Longrightarrow> y \<in> set xs \<Longrightarrow> x = y \<or> R x y \<or> R y x"
  by (induction xs) auto

lemma covers_main: "covers p d \<longleftrightarrow> is_main d \<and> Pos d \<le> p \<and> p \<le> End d"
  by (cases d) auto

lemma in_main_iff:
  assumes "well_positioned f" and "d \<in> set (Decls f)" and "n \<in> set (inspect d)"
  shows "isInMainFunction f n \<longleftrightarrow> is_main d"
proof
  have range: "Pos d \<le> Pos n" "Pos n \<le> End d" using assms by (auto simp: well_positioned_def list_all_iff)
  show "isInMainFunction f n" if "is_main d"
    using that range assms(2) by (auto simp: isInMainFunction_def list_ex_iff covers_main)
  assume "isInMainFunction f n"
  then obtain d' where d': "d' \<in> set (Decls f)" "is_main d'" "Pos d' \<le> Pos n" "Pos n \<le> End d'"
    by (auto simp: isInMainFunction_def list_ex_iff covers_main)
  have "sorted_wrt (\<lambda>d d'. End d < Pos d') (Decls f)" using assms(1) by (simp add: well_positioned_def)
  from sorted_wrt_pair [OF this assms(2) d'(1)] range d' show "is_main d" by auto
qed

lemma run_file_correct:
  assumes "well_positioned f"
  shows "run_file uses f = exit_calls_of_main uses f"
proof -
  have "filter (\<lambda>n. isOsExitCall uses n \<and> isInMainFunction f n) (concat (map inspect ds))
      = filter (isOsExitCall uses) (concat (map inspect (filter is_main ds)))" if "set ds \<subseteq> set (Decls f)" for ds
    using that
  proof (induction ds)
    case (Cons d ds)
    have "filter (\<lambda>n. isOsExitCall uses n \<and> isInMainFunction f n) (inspect d)
        = (if is_main d then filter (isOsExitCall uses) (inspect d) else [])"
      using in_main_iff [OF assms, of d] Cons.prems by (auto simp: filter_empty_conv cong: filter_cong)
    with Cons show ?case by simp
  qed simp
  then show ?thesis by (simp add: run_file_def exit_calls_of_main_def)
qed

section \<open>Properties\<close>


definition sample_file :: ast_file where
  "sample_file = \<lparr>file_Name = ''main'', Decls =
     [FuncDecl 10 30 ''helper'' [Other 15 28 [CallExpr (SelectorExpr (Ident 16 ''os'') ''Exit'') []]],
      FuncDecl 40 90 ''main'' [Other 45 60 [CallExpr (SelectorExpr (Ident 46 ''os'') ''Exit'') [Ident 55 ''code'']],
        Other 61 80 [CallExpr (SelectorExpr (Ident 62 ''log'') ''Fatal'') []]]]\<rparr>"


text \<open>
  A call is recognised by the name os alone when the object of that name belongs to another
  package: for the name of an import, \<^verbatim>\<open>Pkg\<close> is the importing package.
\<close>

lemma renamed_import_missed:
  "n \<noteq> ''os'' \<Longrightarrow> uses p \<noteq> Some ''os'' \<Longrightarrow> \<not> isOsExitCall uses (CallExpr (SelectorExpr (Ident p n) ''Exit'') args)"
  by simp

end
