(* ===== verification/BufPool.thy ===== *)
theory BufPool
  imports Models Steps
begin

text \<open>
  The two \<^verbatim>\<open>sync.Pool\<close>s of \<^verbatim>\<open>internal/app/agent.go\<close>. The workers run SendMetricsBatch at the same time
  and share a pool of buffers and a pool of gzip writers; without encryption the body of a
  request is the buffer itself, not a copy. Buffers and writers are addresses in a store here,
  and the statements that use them are steps of the worker that executes them. A body is taken
  to be read only until the call that sends it has returned.
\<close>

section \<open>State\<close>

text \<open>Where a worker is in SendMetricsBatch: the JSON text to compress, its buffer, its writer.\<close>

datatype send_job =
    NoJob
  | HasBuffer bytes nat
  | HasWriter bytes nat nat
  | Written bytes nat nat
  | Compressed bytes nat nat

record pools =
  contents :: "nat \<Rightarrow> bytes"      \<comment> \<open>of each buffer\<close>
  target :: "nat \<Rightarrow> nat"          \<comment> \<open>the buffer a gzip writer writes to\<close>
  input :: "nat \<Rightarrow> bytes"         \<comment> \<open>what has been written to a gzip writer since its Reset\<close>
  idle_buffers :: "nat set"
  idle_writers :: "nat set"
  next_buffer :: nat                \<comment> \<open>the next address\<close>
  next_writer :: nat
  jobs :: "nat \<Rightarrow> send_job"
  bodies :: "(bytes \<times> bytes) list"  \<comment> \<open>history: the texts, and what was read as the body of their requests\<close>

definition fresh_pools :: pools where
  "fresh_pools = \<lparr>contents = (\<lambda>_. []), target = (\<lambda>_. 0), input = (\<lambda>_. []), idle_buffers = {}, idle_writers = {},
     next_buffer = 0, next_writer = 0, jobs = (\<lambda>_. NoJob), bodies = []\<rparr>"

primrec buffers_of :: "send_job \<Rightarrow> nat set" where
  "buffers_of NoJob = {}"
| "buffers_of (HasBuffer t b) = {b}"
| "buffers_of (HasWriter t b g) = {b}"
| "buffers_of (Written t b g) = {b}"
| "buffers_of (Compressed t b g) = {b}"

primrec writers_of :: "send_job \<Rightarrow> nat set" where
  "writers_of NoJob = {}"
| "writers_of (HasBuffer t b) = {}"
| "writers_of (HasWriter t b g) = {g}"
| "writers_of (Written t b g) = {g}"
| "writers_of (Compressed t b g) = {g}"

section \<open>Steps\<close>

text \<open>Get returns an idle element, or a new one when it finds none; the garbage collector may empty a pool.\<close>

datatype pool_event =
    GetBuffer nat bytes nat
  | GetWriter nat nat
  | GzipWrite nat
  | GzipClose nat
  | ReadBody nat
  | ReturnJob nat
  | Collect "nat set" "nat set"

inductive pool_step :: "golib \<Rightarrow> pools \<Rightarrow> pool_event \<Rightarrow> pools \<Rightarrow> bool" for L where
  get_buffer: "jobs s i = NoJob \<Longrightarrow> b \<in> idle_buffers s \<or> b = next_buffer s \<Longrightarrow> pool_step L s (GetBuffer i t b)
    (s\<lparr>jobs := (jobs s)(i := HasBuffer t b), contents := (contents s)(b := []), idle_buffers := idle_buffers s - {b},
       next_buffer := max (next_buffer s) (Suc b)\<rparr>)"
| get_writer: "jobs s i = HasBuffer t b \<Longrightarrow> g \<in> idle_writers s \<or> g = next_writer s \<Longrightarrow> pool_step L s (GetWriter i g)
    (s\<lparr>jobs := (jobs s)(i := HasWriter t b g), target := (target s)(g := b), input := (input s)(g := []),
       idle_writers := idle_writers s - {g}, next_writer := max (next_writer s) (Suc g)\<rparr>)"
| gzip_write: "jobs s i = HasWriter t b g \<Longrightarrow> pool_step L s (GzipWrite i)
    (s\<lparr>jobs := (jobs s)(i := Written t b g), input := (input s)(g := input s g @ t)\<rparr>)"
| gzip_close: "jobs s i = Written t b g \<Longrightarrow> pool_step L s (GzipClose i)
    (s\<lparr>jobs := (jobs s)(i := Compressed t b g),
       contents := (contents s)(target s g := contents s (target s g) @ Gzip L (input s g))\<rparr>)"
| read_body: "jobs s i = Compressed t b g \<Longrightarrow> pool_step L s (ReadBody i) (s\<lparr>bodies := bodies s @ [(t, contents s b)]\<rparr>)"
| return_job: "jobs s i \<noteq> NoJob \<Longrightarrow> pool_step L s (ReturnJob i)
    (s\<lparr>jobs := (jobs s)(i := NoJob), idle_buffers := idle_buffers s \<union> buffers_of (jobs s i),
       idle_writers := idle_writers s \<union> writers_of (jobs s i)\<rparr>)"
| collect: "pool_step L s (Collect B G) (s\<lparr>idle_buffers := idle_buffers s - B, idle_writers := idle_writers s - G\<rparr>)"

section \<open>The invariant\<close>

primrec job_ok :: "golib \<Rightarrow> pools \<Rightarrow> send_job \<Rightarrow> bool" where
  "job_ok L s NoJob = True"
| "job_ok L s (HasBuffer t b) = (contents s b = [])"
| "job_ok L s (HasWriter t b g) = (contents s b = [] \<and> target s g = b \<and> input s g = [])"
| "job_ok L s (Written t b g) = (contents s b = [] \<and> target s g = b \<and> input s g = t)"
| "job_ok L s (Compressed t b g) = (contents s b = Gzip L t)"

definition apart :: "(nat \<Rightarrow> nat set) \<Rightarrow> nat set \<Rightarrow> nat \<Rightarrow> bool" where
  "apart held idle n \<longleftrightarrow> (\<forall>i j. i \<noteq> j \<longrightarrow> held i \<inter> held j = {}) \<and> (\<forall>i. held i \<inter> idle = {})
     \<and> (\<forall>i. \<forall>x \<in> held i. x < n) \<and> (\<forall>x \<in> idle. x < n)"

definition pools_inv :: "golib \<Rightarrow> pools \<Rightarrow> bool" where
  "pools_inv L s \<longleftrightarrow> apart (buffers_of \<circ> jobs s) (idle_buffers s) (next_buffer s)
     \<and> apart (writers_of \<circ> jobs s) (idle_writers s) (next_writer s)
     \<and> (\<forall>i. job_ok L s (jobs s i)) \<and> (\<forall>(t, z) \<in> set (bodies s). z = Gzip L t)"

text \<open>Taking an element out of a pool and putting it back.\<close>

lemma apart_get:
  assumes "apart held idle n" and "x \<in> idle \<or> x = n" and "held i = {}"
  shows "apart (held(i := {x})) (idle - {x}) (max n (Suc x))"
  using assms unfolding apart_def by (auto simp: less_max_iff_disj)

lemma apart_put:
  assumes "apart held idle n"
  shows "apart (held(i := {})) (idle \<union> held i) n"
  using assms unfolding apart_def by auto

lemma apart_less: "apart held idle n \<Longrightarrow> J \<subseteq> idle \<Longrightarrow> apart held J n"
  unfolding apart_def by blast

text \<open>A job is not touched by what happens to other buffers and writers.\<close>

lemma job_ok_frame:
  assumes "job_ok L s j" and "\<And>b. b \<in> buffers_of j \<Longrightarrow> contents s' b = contents s b"
    and "\<And>g. g \<in> writers_of j \<Longrightarrow> target s' g = target s g \<and> input s' g = input s g"
  shows "job_ok L s' j"
  using assms by (cases j) auto

lemma job_ok_others [simp]:
  "job_ok L (s\<lparr>bodies := x\<rparr>) j = job_ok L s j" "job_ok L (s\<lparr>idle_buffers := B, idle_writers := G\<rparr>) j = job_ok L s j"
  by (cases j; simp)+

lemma apart_disjoint: "apart held idle n \<Longrightarrow> i \<noteq> k \<Longrightarrow> x \<in> held i \<Longrightarrow> x \<notin> held k"
  unfolding apart_def by blast

lemma apart_new: "apart held idle n \<Longrightarrow> x \<in> idle \<or> x = n \<Longrightarrow> x \<notin> held i"
  unfolding apart_def by blast

lemma apart_same: "apart held idle n \<Longrightarrow> held i = X \<Longrightarrow> apart (held(i := X)) idle n"
  by (simp add: fun_upd_idem)

text \<open>A step of worker \<open>i\<close> that leaves the others' buffers and writers alone.\<close>

lemma pools_inv_update:
  assumes "pools_inv L s" and "jobs t = (jobs s)(i := j)" and "bodies t = bodies s" and "job_ok L t j"
    and "apart ((buffers_of \<circ> jobs s)(i := buffers_of j)) (idle_buffers t) (next_buffer t)"
    and "apart ((writers_of \<circ> jobs s)(i := writers_of j)) (idle_writers t) (next_writer t)"
    and "\<And>k b. k \<noteq> i \<Longrightarrow> b \<in> buffers_of (jobs s k) \<Longrightarrow> contents t b = contents s b"
    and "\<And>k g. k \<noteq> i \<Longrightarrow> g \<in> writers_of (jobs s k) \<Longrightarrow> target t g = target s g \<and> input t g = input s g"
  shows "pools_inv L t"
proof -
  have "job_ok L t (jobs t k)" for k
  proof (cases "k = i")
    case False
    have "job_ok L s (jobs s k)" using assms(1) by (simp add: pools_inv_def)
    then have "job_ok L t (jobs s k)" by (rule job_ok_frame) (use assms(7,8) False in blast)+
    then show ?thesis using False assms(2) by simp
  qed (simp add: assms(2,4))
  then show ?thesis using assms(1,3,5,6) by (simp add: pools_inv_def assms(2) fun_upd_comp)
qed

lemma pool_step_inv:
  assumes "pool_step L s e t" and "pools_inv L s"
  shows "pools_inv L t"
proof -
  have bufs: "apart (buffers_of \<circ> jobs s) (idle_buffers s) (next_buffer s)"
    and writers: "apart (writers_of \<circ> jobs s) (idle_writers s) (next_writer s)" and ok: "job_ok L s (jobs s i)" for i
    using assms(2) by (auto simp: pools_inv_def)
  note other_bufs = apart_disjoint [OF bufs, simplified] and other_writers = apart_disjoint [OF writers, simplified]
  note new_bufs = apart_new [OF bufs, simplified] and new_writers = apart_new [OF writers, simplified]
  show ?thesis using assms(1)
  proof cases
    case (get_buffer i b x)
    show ?thesis
      by (rule pools_inv_update [OF assms(2), of _ i "HasBuffer x b"])
        (use get_buffer apart_get [OF bufs get_buffer(4)] apart_same [OF writers, of i "{}"] new_bufs [OF get_buffer(4)] in auto)
  next
    case (get_writer i x b g)
    show ?thesis
      by (rule pools_inv_update [OF assms(2), of _ i "HasWriter x b g"])
        (use get_writer apart_get [OF writers get_writer(4)] apart_same [OF bufs, of i "{b}"] new_writers [OF get_writer(4)] ok [of i] in auto)
  next
    case (gzip_write i x b g)
    show ?thesis
      by (rule pools_inv_update [OF assms(2), of _ i "Written x b g"])
        (use gzip_write apart_same [OF bufs, of i "{b}"] apart_same [OF writers, of i "{g}"] other_writers [of _ i] ok [of i] in auto)
  next
    case (gzip_close i x b g)
    show ?thesis
      by (rule pools_inv_update [OF assms(2), of _ i "Compressed x b g"])
        (use gzip_close apart_same [OF bufs, of i "{b}"] apart_same [OF writers, of i "{g}"] other_bufs [of _ i] ok [of i] in auto)
  next
    case (read_body i x b g)
    then show ?thesis using assms(2) ok [of i] by (simp add: pools_inv_def)
  next
    case (return_job i)
    show ?thesis
      by (rule pools_inv_update [OF assms(2), of _ i NoJob])
        (use return_job apart_put [OF bufs, of i] apart_put [OF writers, of i] in auto)
  next
    case (collect B G)
    then show ?thesis using assms(2) apart_less [OF bufs, of "idle_buffers s - B"] apart_less [OF writers, of "idle_writers s - G"]
      by (simp add: pools_inv_def)
  qed
qed

interpretation pooling: step_invariant "pool_step L" "pools_inv L" for L
  using pool_step_inv by unfold_locales blast

lemma fresh_pools_inv: "pools_inv L fresh_pools"
  by (simp add: pools_inv_def fresh_pools_def apart_def)

section \<open>Properties\<close>

inductive_simps pool_step_iff:
  "pool_step L s (GetBuffer i t b) s'" "pool_step L s (GetWriter i g) s'" "pool_step L s (GzipWrite i) s'"
  "pool_step L s (GzipClose i) s'" "pool_step L s (ReadBody i) s'" "pool_step L s (ReturnJob i) s'"



end
