(* ===== verification/Spec2Isabelle.thy ===== *)
theory Spec2Isabelle
  imports AgentRun ServerMain ExitCheck BufPool
begin

text \<open>
  A verification of go-metrics, a service that collects metrics. An agent samples runtime and
  system metrics and posts them in batches to a server, which keeps them in memory (with a file)
  or in PostgreSQL and gives them out over HTTP. Requests can be signed with a shared key,
  compressed, and encrypted with RSA. Each theory opens with what it holds; this header says how
  they fit together. File names are those below the root of the repository.

  \<^bold>\<open>Shared theories.\<close> Prelude: strings as byte lists, the int64 and bit-pattern types, strconv, fmt's
  %d, error values with their wrapping chain. GoFloat: float64 as a bit pattern, fmt's %f, rounding
  of quotients. GoTime and GoFlag: ParseDuration, Duration.Seconds, the flag package. Http: headers,
  requests, the response writer with its sticky status. Base64 and RSA: the two library functions
  the wire format rests on, RSA with PKCS #1 v1.5 padding down to the modular exponentiation.
  Steps: runs of labelled step relations with the locales \<^verbatim>\<open>step_invariant\<close> (a predicate every step
  keeps), \<^verbatim>\<open>draining\<close> (work that can always be finished), \<^verbatim>\<open>queueing\<close> (first in, first out) and
  \<^verbatim>\<open>recording\<close> (what has been observed along a run).

  \<^bold>\<open>internal/utils.\<close> Retry models retry.go: the classification of errors, the loop with its context,
  clock and scheduler, RetryWithBackoff. An action is a function on a clock and a world; the lemmas
  \<^verbatim>\<open>Retry_iff\<close>, \<^verbatim>\<open>Retry_inv\<close> and \<^verbatim>\<open>Retry_success\<close> carry every client of it. HashUtil models hash.go with
  HMAC-SHA256 computed on 32-bit words.

  \<^bold>\<open>internal/models and internal/storage.\<close> Models: the metric, and \<^verbatim>\<open>golib\<close>, the record of the library
  functions that are parameters (JSON, gzip, float text, the page template), with a small instance.
  Storage: the abstract state of a store (gauges and counters), its operations, and the locale
  \<^verbatim>\<open>metric_store\<close> of what a store promises, in which the facts about batches and reads are proved.
  MemStorage and DBStorage model memstorage.go and database.go and interpret the locale: the first
  as maps and a file system, the second as a table, SQL statements, transactions and retries
  against a server that can fail before or after it has done its work. Stores models the interface
  value of storage.go and interprets the locale for it, so handlers are verified for both.

  \<^bold>\<open>internal/server, internal/middleware, internal/logger.\<close> Handlers models every handler of handlers.go
  and the signature checks; Middleware the decrypting, compressing and logging wrappers; Router the
  route table, the chain, and how answers pass through it. A handler maps request, writer and state
  to writer and state.

  \<^bold>\<open>internal/crypto.\<close> SampleKey and Crypto: keys in PEM files, generation, one-block and blockwise
  encryption (partial functions, since a block size of zero would loop; that they return is proved),
  with the locale \<^verbatim>\<open>block_cipher\<close> interpreted on RSA.

  \<^bold>\<open>internal/config and internal/app/agent_config.go.\<close> Config and AgentConfig: flags, environment and
  JSON file, merged, converted and checked in the order of the code.

  \<^bold>\<open>The running server.\<close> StorageManager models storage_manager.go, Server models cmd/server/main.go with
  NewDatabaseStorage and migrations.go. Requests, timer ticks and the statements of the graceful
  shutdown are the steps of \<^verbatim>\<open>server_step\<close>. Handlers share nothing but the store and reach it by
  single calls of its interface, each of which holds the lock or is one exchange with the database;
  so besides the event of a request that runs alone there is one for each call, and overlapping
  requests are runs of calls (\<^verbatim>\<open>request_is_calls\<close>). The pprof server has only its place in the
  shutdown. ServerMain puts the process around it: main from the configuration to its return, the
  signals (caught only after signal.Notify), the failing listener, which ends the process without
  a shutdown, the ticker that panics for a bad interval, and the periodic save as snapshot,
  creation and writing of the file, with every end possible in between (\<^verbatim>\<open>process_step\<close>).

  \<^bold>\<open>The running agent.\<close> Agent models the sequential part of agent.go: NewMetric, the two collections,
  preparing a request, the HTTP client over a network that loses connections, bodies and answers,
  and SendMetricsBatch on top of Retry. AgentRun models its concurrent part as an executable step
  function \<^verbatim>\<open>agent_exec\<close> on a record with the three channels (capacity 100 each), the two collectors,
  the transferring and submitting goroutines, the workers, and the statements of Run and the three
  Stops; \<^verbatim>\<open>agent_step\<close> is its relation. An event fixes every choice of the scheduler, the timers and
  the network, so a run is a list of events. Sending to a closed channel and calling the nil task
  received from one are panics, which end the process. BufPool models the pools of buffers and gzip
  writers that the workers share, as addresses in a store, and shows that no call sees another's
  data; so the sequential model may take the compressed text as a value.

  \<^bold>\<open>The tools.\<close> Tools: cmd/keygen, cmd/migrate, the build information. ExitCheck: cmd/staticlint.

  \<^bold>\<open>What the properties show.\<close> Each component's theory ends with its properties; those of this theory
  span agent, wire, server and store. They say that a batch is carried out whole, in order and alike
  on both stores; that refused requests change nothing; that signing, compression and encryption
  round-trip; that retries are bounded and stop; that a configuration comes from the documented
  sources; that a restart keeps all metrics, main can always return, and after any other end the
  file still holds a store the server once had, or none; that the agent's pipeline loses nothing and
  delivers nothing twice while it runs. Some state where the code falls short of
  its documentation: the sender's Stop can lose batches or panic, the poll counter is added up as if
  it were a difference, an unencodable reply is logged with another status than was sent.

  \<^bold>\<open>Bounds and fuel.\<close> No definition uses fuel. Loops that the source does not bound structurally are
  \<^verbatim>\<open>partial_function (option)\<close> (blockwise encryption and decryption) or functions with a measure
  (the retry loop, at most MaxAttempts). Counters, durations and key fields are 64-bit words with
  their wrap-around; times of the clock are natural numbers.

  \<^bold>\<open>Parameters and their laws.\<close> Third-party and operating-system behaviour is an argument: \<^verbatim>\<open>golib\<close>,
  \<^verbatim>\<open>keylib\<close> (PEM, x509, key generation; \<^verbatim>\<open>key_laws\<close>), \<^verbatim>\<open>chimux\<close> (\<^verbatim>\<open>chi_law\<close>), \<^verbatim>\<open>dblib\<close> (pgx, goose), \<^verbatim>\<open>urllib\<close>,
  the file system, the fate of each database and network call, the iteration order of maps, the
  random bytes. Theorems name the laws they need, and their witnesses use concrete instances.

  \<^bold>\<open>Not modelled.\<close> The HTTP server loop, ports and addresses (setupPProfServer), the configuration
  of the zap logger, log texts, the documentation file doc.go, the plugin machinery of
  multichecker, and redirects of the HTTP client, which the server never sends for the agent's
  path. Wall-clock durations of waits appear only as choices (a timeout may happen).
\<close>

section \<open>From the agent to the store\<close>

text \<open>What a key can verify does not depend on the store behind it.\<close>

lemma verifyMetricHash_key_only: "verifyMetricHash (NewHandlers st (Handlers.key h)) m = verifyMetricHash h m"
  by (simp add: verifyMetricHash_def NewHandlers_def split: option.split)

lemma runtime_batch_accepted:
  assumes "x \<in> set (fst (runtime_batch k ord m rv pc))"
  shows "wf_metric x \<and> verifyMetricHash (NewHandlers st k) x"
  using assms NewMetric_signed by (auto simp: runtime_batch_def Let_def dest!: runtime_metrics_signed)

lemma new_request_Inr:
  assumes "new_request U url b e = Inr r"
  shows "Method r = ''POST'' \<and> url_Path U url = Inr (Path r) \<and> Body r = byte_stream b
    \<and> Header_Get (ReqHeader r) Content_Type = application_json \<and> Header_Get (ReqHeader r) Content_Encoding = e
    \<and> Header_Get (ReqHeader r) Accept_Encoding = ''gzip''"
  using assms by (auto simp: new_request_def split: sum.splits)

text \<open>What the middlewares hand to the mux is the JSON text, whether or not it was encrypted.\<close>

lemma prepared_request_served:
  assumes "prepare_request L U rand A ms = Some (Returned (Inr r))" and "agent_server_keys A K"
    and "\<And>b. Gunzip L (byte_stream (Gzip L b)) = Some (byte_stream b)"
  shows "\<exists>json r'. MarshalBatch L ms = Some json \<and> Body r' = byte_stream json \<and> Method r' = ''POST'' \<and> Path r' = Path r
    \<and> Header_Get (ReqHeader r') Content_Type = application_json
    \<and> ServeHTTP L ord chi K r w h = (case mux L ord chi r' (gzip_writer w) h of (gw, h') \<Rightarrow> (gzip_close L w gw, h'))"
proof -
  obtain url json where url: "url_JoinPath U (ms_address A) ''updates/'' = Inr url" and json: "MarshalBatch L ms = Some json"
    using assms(1) by (auto simp: prepare_request_def split: sum.splits option.splits)
  let ?z = "Gzip L json"
  note prep = assms(1) [unfolded prepare_request_def url json, simplified Let_def sum.case option.case]
  have gzip: "GzipMiddleware L nxt q w h = (case nxt (q\<lparr>Body := byte_stream json\<rparr>) (gzip_writer w) h of (gw, h') \<Rightarrow> (gzip_close L w gw, h'))"
    if "Body q = byte_stream ?z" "Header_Get (ReqHeader q) Content_Encoding = ''gzip''" "Header_Get (ReqHeader q) Accept_Encoding = ''gzip''"
    for nxt :: handler and q
    using that assms(3) by (simp add: GzipMiddleware_def unzip_request_def gzip_token_def)
  show ?thesis
  proof (cases "ms_publicKey A")
    case None
    then have r: "new_request U url ?z ''gzip'' = Inr r" using prep by simp
    note q = new_request_Inr [OF r]
    have "DecryptMiddleware K nxt r w h = nxt r w h" for nxt :: handler
      using q by (intro decrypt_passes) (simp add: encrypted_token_def)
    then show ?thesis using q json gzip [of r "mux L ord chi"]
      by (intro exI [of _ json] exI [of _ "r\<lparr>Body := byte_stream json\<rparr>"]) (simp add: ServeHTTP_def)
  next
    case (Some P)
    then obtain K' where K: "K = Some K'" "valid_key K'" "P = public_part K'"
      using assms(2) by (auto simp: agent_server_keys_def split: option.splits)
    obtain ct where ct: "EncryptLargeData rand ?z P = Some (Returned (Inr ct))" "DecryptLargeData ct K' = Some (Returned (Inr ?z))"
      using large_roundtrip [OF K(2), of rand ?z] K(3) by blast
    then have r: "new_request U url (base64_encode ct) ''encrypted'' = Inr r" using prep Some by simp
    note q = new_request_Inr [OF r]
    let ?q = "r\<lparr>Body := byte_stream ?z, ContentLength := int (length ?z), ReqHeader := Header_Set Content_Encoding gzip_token (ReqHeader r)\<rparr>"
    have "DecryptMiddleware K nxt r w h = nxt ?q w h" for nxt :: handler
      unfolding K(1) using q ct(2) by (intro decrypt_accepts [of r ct]) (simp_all add: encrypted_token_def)
    then show ?thesis using q json gzip [of ?q "mux L ord chi"]
      by (intro exI [of _ json] exI [of _ "?q\<lparr>Body := byte_stream json\<rparr>"]) (simp add: ServeHTTP_def gzip_token_def)
  qed
qed

lemma gzip_writer_fresh: "fresh w \<Longrightarrow> fresh (gzip_writer w)"
  by simp

lemma agent_request_applied:
  assumes "prepare_request L U rand A ms = Some (Returned (Inr r))" and "agent_server_keys A K"
    and "\<And>b. Gunzip L (byte_stream (Gzip L b)) = Some (byte_stream b)"
    and "\<And>b. MarshalBatch L ms = Some b \<Longrightarrow> DecodeBatch L (byte_stream b) = Some ms"
    and "chi_find chi (patterns L ord) ''POST'' (Path r) = Matched 6 vs"
    and "ms \<noteq> []" and "list_all (\<lambda>m. wf_metric m \<and> verifyMetricHash h m) ms"
    and "mset (ord (group_metrics ms)) = mset (group_metrics ms)"
    and "store_ok (storage h)" and "store_accepts (storage h) (ops_of (map snd (ord (group_metrics ms))))" and "fresh w"
  shows "status_of (fst (ServeHTTP L ord chi K r w h)) = 200
    \<and> store_abs (storage (snd (ServeHTTP L ord chi K r w h))) = apply_ops (ops_of ms) (store_abs (storage h))"
proof -
  from prepared_request_served [OF assms(1-3), of ord chi w h] obtain json r' where json: "MarshalBatch L ms = Some json"
    and r': "Body r' = byte_stream json" "Method r' = ''POST''" "Path r' = Path r"
      "Header_Get (ReqHeader r') Content_Type = application_json"
    and serve: "ServeHTTP L ord chi K r w h = (case mux L ord chi r' (gzip_writer w) h of (gw, h') \<Rightarrow> (gzip_close L w gw, h'))"
    by blast
  have mux: "mux L ord chi r' (gzip_writer w) h = UpdatesHandler L ord (r'\<lparr>URLParam := vs\<rparr>) (gzip_writer w) h"
    using assms(5) r' by (simp add: mux_def routes_def)
  have "status_of (fst (UpdatesHandler L ord (r'\<lparr>URLParam := vs\<rparr>) (gzip_writer w) h)) = 200
    \<and> store_abs (storage (snd (UpdatesHandler L ord (r'\<lparr>URLParam := vs\<rparr>) (gzip_writer w) h))) = apply_ops (ops_of ms) (store_abs (storage h))"
    using assms(4) [OF json] r' assms(6-11) by (intro UpdatesHandler_applies) (auto simp: list_all_iff)
  then show ?thesis unfolding serve mux by (simp add: case_prod_beta)
qed

section \<open>The counter of polls\<close>

text \<open>The operations of the successive batches of the runtime collector.\<close>

fun runtime_batches :: "string \<Rightarrow> (((string \<times> float64) list \<Rightarrow> (string \<times> float64) list) \<times> MemStats \<times> float64) list \<Rightarrow> int64
    \<Rightarrow> Metrics list list" where
  "runtime_batches k [] pc = []"
| "runtime_batches k ((ord, m, rv) # ts) pc = (case runtime_batch k ord m rv pc of (b, pc') \<Rightarrow> b # runtime_batches k ts pc')"

lemma gauges_keep_counters:
  "(\<And>x. x \<in> set ms \<Longrightarrow> \<exists>n v. x = NewMetric n ''gauge'' (Some v) None k) \<Longrightarrow> c_of (apply_ops (ops_of ms) a) = c_of a"
proof (induction ms arbitrary: a)
  case (Cons x ms)
  from Cons.prems [of x] obtain n v where "x = NewMetric n ''gauge'' (Some v) None k" by auto
  then have "op_of x = Some (SetGauge n v)" by (simp add: op_of_def NewMetric_def Gauge_def Let_def)
  then show ?case using Cons by simp
qed simp

lemma runtime_batch_counter:
  "c_of (apply_ops (ops_of (fst (runtime_batch k ord m rv pc))) a) = (c_of a)(''PollCount'' \<mapsto> go_get (c_of a) ''PollCount'' + (pc + 1))"
proof -
  have "op_of (NewMetric ''PollCount'' ''counter'' None (Some (pc + 1)) k) = Some (AddCounter ''PollCount'' (pc + 1))"
    by (simp add: op_of_def NewMetric_def Gauge_def Counter_def Let_def)
  moreover have "c_of (apply_ops (ops_of (CollectRuntimeMetricsData k ord m rv)) a) = c_of a"
    by (rule gauges_keep_counters) (rule runtime_metrics_signed)
  ultimately show ?thesis by (simp add: runtime_batch_def Let_def)
qed

definition polls_sum :: "nat \<Rightarrow> int64 \<Rightarrow> int64" where
  "polls_sum n pc = (\<Sum>i < n. pc + of_nat (Suc i))"

lemma polls_sum_simps:
  "polls_sum 0 pc = 0" "polls_sum (Suc n) pc = (pc + 1) + polls_sum n (pc + 1)"
proof -
  have "polls_sum (Suc n) pc = (pc + of_nat (Suc 0)) + (\<Sum>i < n. pc + of_nat (Suc (Suc i)))"
    unfolding polls_sum_def by (rule sum.lessThan_Suc_shift)
  then show "polls_sum (Suc n) pc = (pc + 1) + polls_sum n (pc + 1)" by (simp add: polls_sum_def add.assoc)
qed (simp add: polls_sum_def)

lemma polls_add_up:
  "ts \<noteq> [] \<Longrightarrow> c_of (apply_ops (ops_of (concat (runtime_batches k ts pc))) a) ''PollCount''
    = Some (go_get (c_of a) ''PollCount'' + polls_sum (length ts) pc)"
proof (induction ts arbitrary: pc a)
  case (Cons t ts)
  obtain ord m rv where t: "t = (ord, m, rv)" by (metis prod_cases3)
  obtain b where b: "runtime_batch k ord m rv pc = (b, pc + 1)" by (simp add: runtime_batch_def Let_def)
  then have step: "runtime_batches k (t # ts) pc = b # runtime_batches k ts (pc + 1)" by (subst t) simp
  note counter = runtime_batch_counter [of k ord m rv pc a, unfolded b fst_conv]
  show ?case
  proof (cases "ts = []")
    case True
    then show ?thesis unfolding step by (simp add: counter polls_sum_simps)
  next
    case False
    let ?a = "apply_ops (ops_of b) a"
    have "c_of (apply_ops (ops_of (concat (runtime_batches k (t # ts) pc))) a) ''PollCount''
      = c_of (apply_ops (ops_of (concat (runtime_batches k ts (pc + 1)))) ?a) ''PollCount''"
      unfolding step by simp
    also have "\<dots> = Some (go_get (c_of ?a) ''PollCount'' + polls_sum (length ts) (pc + 1))"
      by (rule Cons.IH [OF False])
    also have "go_get (c_of ?a) ''PollCount'' = go_get (c_of a) ''PollCount'' + (pc + 1)"
      by (simp add: counter)
    finally show ?thesis by (simp only: polls_sum_simps list.size add.assoc add_Suc_right add_0_right)
  qed
qed simp

lemma polls_sum_triangle: "polls_sum n 0 = of_nat (n * (n + 1) div 2)"
proof -
  have "(\<Sum>i < n. Suc i) = n * (n + 1) div 2" by (induction n) simp_all
  then have "of_nat (n * (n + 1) div 2) = (\<Sum>i < n. of_nat (Suc i) :: int64)" by (metis of_nat_sum)
  then show ?thesis by (simp only: polls_sum_def add_0_left)
qed

lemma runtime_batches_wf: "b \<in> set (runtime_batches k ts pc) \<Longrightarrow> m \<in> set b \<Longrightarrow> wf_metric m"
proof (induction ts arbitrary: pc)
  case (Cons t ts)
  obtain ord st rv where t: "t = (ord, st, rv)" by (metis prod_cases3)
  obtain b' where b': "runtime_batch k ord st rv pc = (b', pc + 1)" by (simp add: runtime_batch_def Let_def)
  then have "\<And>x. x \<in> set b' \<Longrightarrow> wf_metric x" using runtime_batch_accepted [of _ k ord st rv pc] by simp
  with Cons show ?case by (auto simp: t b')
qed simp

lemma fold_batches:
  assumes "\<And>b m. b \<in> set bs \<Longrightarrow> m \<in> set b \<Longrightarrow> wf_metric m"
  shows "\<exists>m'. fold (\<lambda>b st. snd (UpdateBatch b st)) bs (InMemory m) = InMemory m' \<and> mem_abs m' = apply_ops (ops_of (concat bs)) (mem_abs m)"
  using assms
proof (induction bs arbitrary: m)
  case (Cons b bs)
  have wf: "\<forall>x \<in> set b. wf_metric x" using Cons.prems [of b] by simp
  have "store_abs (snd (UpdateBatch b (InMemory m))) = apply_ops (ops_of b) (mem_abs m)"
    using st.batch_result [of "InMemory m" b] wf by (simp del: UpdateBatch.simps)
  moreover obtain m1 where m1: "snd (UpdateBatch b (InMemory m)) = InMemory m1" by simp
  ultimately have "mem_abs m1 = apply_ops (ops_of b) (mem_abs m)" by (simp del: UpdateBatch.simps)
  moreover have "wf_metric x" if "c \<in> set bs" "x \<in> set c" for c x using Cons.prems [of c x] that by simp
  ultimately show ?case using Cons.IH [of m1] m1 by (simp del: UpdateBatch.simps)
qed simp

section \<open>Properties\<close>

definition sample_memstats :: MemStats where
  "sample_memstats = \<lparr>Alloc = 1, BuckHashSys = 1, Frees = 1, GCCPUFraction = f64_one_half, GCSys = 1, HeapAlloc = 1, HeapIdle = 1,
     HeapInuse = 1, HeapObjects = 1, HeapReleased = 1, HeapSys = 1, LastGC = 1, Lookups = 1, MCacheInuse = 1, MCacheSys = 1,
     MSpanInuse = 1, MSpanSys = 1, Mallocs = 1, NextGC = 1, NumForcedGC = 1, NumGC = 1, OtherSys = 1, PauseTotalNs = 1,
     StackInuse = 1, StackSys = 1, Sys = 1, TotalAlloc = 1\<rparr>"

text \<open>
  C2: what the agent collects arrives in the store. A batch of either collector, prepared by the
  sender with or without encryption, is answered 200 by a server that has the same signing key
  and, if the agent encrypts, the matching private key; its store has then applied the metrics
  of the batch in order. The codecs invert each other, and the route is found.
\<close>

theorem agent_batch_reaches_store:
  assumes "ms = fst (runtime_batch (Handlers.key h) mapord stats rv pc) \<or> ms = CollectSystemMetricsData (Handlers.key h) vm cpus \<and> ms \<noteq> []"
    and "prepare_request L U rand A ms = Some (Returned (Inr r))" and "agent_server_keys A K"
    and "\<And>b. Gunzip L (byte_stream (Gzip L b)) = Some (byte_stream b)"
    and "\<And>b. MarshalBatch L ms = Some b \<Longrightarrow> DecodeBatch L (byte_stream b) = Some ms"
    and "chi_find chi (patterns L ord) ''POST'' (Path r) = Matched 6 vs"
    and "mset (ord (group_metrics ms)) = mset (group_metrics ms)"
    and "store_ok (storage h)" and "store_accepts (storage h) (ops_of (map snd (ord (group_metrics ms))))" and "fresh w"
  shows "status_of (fst (ServeHTTP L ord chi K r w h)) = 200
    \<and> store_abs (storage (snd (ServeHTTP L ord chi K r w h))) = apply_ops (ops_of ms) (store_abs (storage h))"
proof (rule agent_request_applied [OF assms(2-6)])
  show "ms \<noteq> []" using assms(1) by (auto simp: runtime_batch_def Let_def)
  show "list_all (\<lambda>m. wf_metric m \<and> verifyMetricHash h m) ms"
    using assms(1) runtime_batch_accepted system_metrics_signed NewMetric_signed verifyMetricHash_key_only [of undefined h]
    unfolding list_all_iff by metis
qed (assumption | fact assms)+

theorem agent_batch_reaches_store_witness:
  "\<exists>r. prepare_request (sample_lib\<lparr>MarshalBatch := [sample_system \<mapsto> ''json''], DecodeBatch := (\<lambda>s. Some sample_system)\<rparr>)
       sample_urllib sample_rand (sample_sender\<lparr>ms_publicKey := Some (public_part sample_key)\<rparr>) sample_system = Some (Returned (Inr r))
    \<and> status_of (fst (ServeHTTP (sample_lib\<lparr>MarshalBatch := [sample_system \<mapsto> ''json''], DecodeBatch := (\<lambda>s. Some sample_system)\<rparr>)
        id sample_chi (Some sample_key) r new_writer (NewHandlers (InMemory NewMemStorage) ''k''))) = 200"
proof -
  let ?L = "sample_lib\<lparr>MarshalBatch := [sample_system \<mapsto> ''json''], DecodeBatch := (\<lambda>s. Some sample_system)\<rparr>"
    and ?A = "sample_sender\<lparr>ms_publicKey := Some (public_part sample_key)\<rparr>"
    and ?h = "NewHandlers (InMemory NewMemStorage) ''k''"
  obtain ct where "EncryptLargeData sample_rand (Gzip ?L ''json'') (public_part sample_key) = Some (Returned (Inr ct))"
    using large_roundtrip [OF sample_key_valid] by blast
  then obtain r where r: "prepare_request ?L sample_urllib sample_rand ?A sample_system = Some (Returned (Inr r))" "Path r = ''/updates/''"
    by (simp add: prepare_request_def sample_urllib_def sample_sender_def new_request_def)
  have "status_of (fst (ServeHTTP ?L id sample_chi (Some sample_key) r new_writer ?h)) = 200
    \<and> store_abs (storage (snd (ServeHTTP ?L id sample_chi (Some sample_key) r new_writer ?h))) = apply_ops (ops_of sample_system) (store_abs (storage ?h))"
    by (rule agent_batch_reaches_store [where vm = "Some (1, 1)" and cpus = None, OF _ r(1)])
      (simp_all add: r(2) sample_chi_updates sample_system_def CollectSystemMetricsData_def NewHandlers_def agent_server_keys_def
        sample_key_valid sample_lib_def byte_stream_def)
  with r(1) show ?thesis by blast
qed

text \<open>
  C27: the poll counter of the server does not count polls. Each batch carries the number of
  polls so far as the delta of a counter, which the store adds up: after n polls, delivered
  once each and in order, the counter has grown by n (n + 1) / 2 in 64-bit arithmetic.
\<close>

theorem poll_counter_overcounts:
  assumes "ts \<noteq> []"
  shows "fst (GetCounter ''PollCount'' (fold (\<lambda>b st. snd (UpdateBatch b st)) (runtime_batches k ts 0) (InMemory m)))
    = Inr (go_get (counters m) ''PollCount'' + of_nat (length ts * (length ts + 1) div 2))"
proof -
  obtain m' where m': "fold (\<lambda>b st. snd (UpdateBatch b st)) (runtime_batches k ts 0) (InMemory m) = InMemory m'"
    and abs: "mem_abs m' = apply_ops (ops_of (concat (runtime_batches k ts 0))) (mem_abs m)"
    using fold_batches [of "runtime_batches k ts 0" m] runtime_batches_wf by blast
  have "c_of (mem_abs m') ''PollCount'' = Some (go_get (c_of (mem_abs m)) ''PollCount'' + polls_sum (length ts) 0)"
    unfolding abs by (rule polls_add_up [OF assms])
  then show ?thesis unfolding m' polls_sum_triangle using mem.get_counter_Some by (simp add: mem_abs_def)
qed

theorem poll_counter_overcounts_witness:
  "fst (GetCounter ''PollCount'' (fold (\<lambda>b st. snd (UpdateBatch b st))
      (runtime_batches ''k'' (replicate 3 (id, sample_memstats, f64_one_half)) 0) (InMemory NewMemStorage))) = Inr 6"
  using poll_counter_overcounts [of "replicate 3 (id, sample_memstats, f64_one_half)" "''k''" NewMemStorage]
  by (simp add: NewMemStorage_def)

end
